theory Spec2Isabelle
  imports Complex_Main "HOL-Library.AList" "HOL-Library.Multiset" "HOL-Library.Product_Lexorder"
    "HOL-Library.Sublist"
begin

section \<open>Data model (environment.py)\<close>

text \<open>
  Python floats are modelled as reals and Python's unbounded ints as \<open>int\<close>.
  \<open>datetime.now()\<close> reads the wall clock: every operation that reads it takes the
  reading as the parameter \<open>now\<close>.
\<close>

type_synonym datetime = nat

datatype error = KeyError | IndexError | ValueError | OverflowError | OSError

datatype disaster_type = FLOOD | EARTHQUAKE | FIRE | DROUGHT | STORM

datatype severity = LOW | MODERATE | HIGH | CRITICAL | CATASTROPHIC

text \<open>\<open>Severity.<member>.value\<close>.\<close>

fun severity_value :: "severity \<Rightarrow> int" where
  "severity_value LOW = 1"
| "severity_value MODERATE = 2"
| "severity_value HIGH = 3"
| "severity_value CRITICAL = 4"
| "severity_value CATASTROPHIC = 5"

text \<open>\<open>list(DisasterType)\<close> and \<open>list(Severity)\<close>: the members in definition order.\<close>

definition list_DisasterType :: "disaster_type list" where
  "list_DisasterType = [FLOOD, EARTHQUAKE, FIRE, DROUGHT, STORM]"

definition list_Severity :: "severity list" where
  "list_Severity = [LOW, MODERATE, HIGH, CRITICAL, CATASTROPHIC]"

record location =
  latitude :: real
  longitude :: real
  name :: string

record disaster_event =
  event_id :: string
  disaster_type :: disaster_type
  location :: location
  severity :: severity
  timestamp :: datetime
  affected_area :: real
  casualties :: int
  infrastructure_damage :: real
  resources_needed :: "string \<rightharpoonup> int"

text \<open>The per-location dictionary of \<open>_initialize_conditions\<close>, with its seven fixed keys.\<close>

record condition =
  temperature :: real
  humidity :: real
  wind_speed :: real
  air_quality :: real
  seismic_activity :: real
  water_level :: real
  smoke_detected :: bool

record percept =
  p_timestamp :: datetime
  p_location :: location
  p_temperature :: real
  p_humidity :: real
  p_wind_speed :: real
  p_air_quality :: real
  p_seismic_activity :: real
  p_water_level :: real
  p_smoke_detected :: bool
  p_active_disasters :: "disaster_event list"

text \<open>
  The state of a \<open>DisasterEnvironment\<close>. \<open>current_conditions\<close> is a dictionary that
  is iterated in insertion order, so it is an association list.
\<close>

record environment =
  event_counter :: nat
  active_disasters :: "disaster_event list"
  locations :: "location list"
  current_conditions :: "(string \<times> condition) list"

section \<open>The random source\<close>

text \<open>
  Python's \<open>random\<close> module is an external library with hidden global state. It is
  modelled as an explicit stream of draws from the unit interval, threaded through every
  function that draws: \<open>random()\<close> takes the next draw, and \<open>uniform\<close>, \<open>randint\<close> and
  \<open>choice\<close> are derived from it as the library documents them.
\<close>

type_synonym rng = "nat \<Rightarrow> real"

definition valid_rng :: "rng \<Rightarrow> bool" where
  "valid_rng g = (\<forall>n. 0 \<le> g n \<and> g n < 1)"

definition random :: "rng \<Rightarrow> real \<times> rng" where
  "random g = (g 0, \<lambda>n. g (Suc n))"

definition uniform :: "real \<Rightarrow> real \<Rightarrow> rng \<Rightarrow> real \<times> rng" where
  "uniform a b g = (case random g of (u, g') \<Rightarrow> (a + (b - a) * u, g'))"

definition randbelow :: "nat \<Rightarrow> rng \<Rightarrow> nat \<times> rng" where
  "randbelow n g = (case random g of (u, g') \<Rightarrow> (nat \<lfloor>u * real n\<rfloor>, g'))"

definition randint :: "int \<Rightarrow> int \<Rightarrow> rng \<Rightarrow> error + (int \<times> rng)" where
  "randint a b g =
     (if b < a then Inl ValueError
      else case randbelow (nat (b - a + 1)) g of (k, g') \<Rightarrow> Inr (a + int k, g'))"

definition choice :: "'a list \<Rightarrow> rng \<Rightarrow> error + ('a \<times> rng)" where
  "choice seq g =
     (if seq = [] then Inl IndexError
      else case randbelow (length seq) g of (k, g') \<Rightarrow> Inr (seq ! k, g'))"

text \<open>Sequencing of fallible steps: an exception ends the computation.\<close>

definition and_then :: "error + 'a \<Rightarrow> ('a \<Rightarrow> error + 'b) \<Rightarrow> error + 'b" where
  "and_then m f = (case m of Inl e \<Rightarrow> Inl e | Inr x \<Rightarrow> f x)"

text \<open>\<open>d[key]\<close> on a dictionary: a missing key raises \<open>KeyError\<close>.\<close>

definition lookup :: "(string \<times> 'v) list \<Rightarrow> string \<Rightarrow> error + 'v" where
  "lookup d k = (case map_of d k of None \<Rightarrow> Inl KeyError | Some v \<Rightarrow> Inr v)"

section \<open>The environment engine (environment.py)\<close>

text \<open>\<open>_initialize_locations\<close>.\<close>

definition initialize_locations :: "location list" where
  "initialize_locations =
     [\<lparr>latitude = 5.6037, longitude = -0.1870, name = ''Accra''\<rparr>,
      \<lparr>latitude = 6.6944, longitude = -1.5547, name = ''Kumasi''\<rparr>,
      \<lparr>latitude = 5.6260, longitude = 0.0091, name = ''Tema''\<rparr>,
      \<lparr>latitude = 9.2619, longitude = -0.8406, name = ''Tamale''\<rparr>,
      \<lparr>latitude = 5.1143, longitude = -1.2440, name = ''Cape Coast''\<rparr>]"

text \<open>
  \<open>_initialize_conditions\<close>: the loop over the locations, one dictionary entry each.
  Assigning to a key that is already present overwrites it in place.
\<close>

fun initialize_conditions ::
  "location list \<Rightarrow> (string \<times> condition) list \<Rightarrow> rng \<Rightarrow> (string \<times> condition) list \<times> rng" where
  "initialize_conditions [] conditions g = (conditions, g)"
| "initialize_conditions (l # ls) conditions g =
     (case uniform 25 35 g of (t, g1) \<Rightarrow>
      case uniform 60 90 g1 of (h, g2) \<Rightarrow>
      case uniform 0 30 g2 of (w, g3) \<Rightarrow>
      case uniform 50 150 g3 of (a, g4) \<Rightarrow>
        initialize_conditions ls
          (AList.update (name l)
             \<lparr>temperature = t, humidity = h, wind_speed = w, air_quality = a,
              seismic_activity = 0, water_level = 0, smoke_detected = False\<rparr>
             conditions)
          g4)"

text \<open>\<open>DisasterEnvironment.__init__\<close>: it takes no argument.\<close>

definition DisasterEnvironment_init :: "rng \<Rightarrow> environment \<times> rng" where
  "DisasterEnvironment_init g =
     (case initialize_conditions initialize_locations [] g of (conditions, g') \<Rightarrow>
        (\<lparr>event_counter = 0, active_disasters = [], locations = initialize_locations,
          current_conditions = conditions\<rparr>, g'))"

text \<open>
  The body of the first loop of \<open>update_environment\<close> (lines 130-139): drift of one
  location's condition, then the clipping.
\<close>

definition drift :: "condition \<Rightarrow> rng \<Rightarrow> condition \<times> rng" where
  "drift cond g =
     (case uniform (-2) 2 g of (dt, g1) \<Rightarrow>
      case uniform (-5) 5 g1 of (dh, g2) \<Rightarrow>
      case uniform (-5) 5 g2 of (dw, g3) \<Rightarrow>
      case uniform (-10) 10 g3 of (da, g4) \<Rightarrow>
        (cond\<lparr>temperature := max 20 (min 45 (temperature cond + dt)),
               humidity := max 30 (min 100 (humidity cond + dh)),
               wind_speed := max 0 (wind_speed cond + dw),
               air_quality := max 0 (min 500 (air_quality cond + da))\<rparr>, g4))"

text \<open>The loop itself: every key of the dictionary, in order; the values change in place.\<close>

fun drift_conditions ::
  "(string \<times> condition) list \<Rightarrow> rng \<Rightarrow> (string \<times> condition) list \<times> rng" where
  "drift_conditions [] g = ([], g)"
| "drift_conditions ((location_name, cond) # rest) g =
     (case drift cond g of (cond', g1) \<Rightarrow>
      case drift_conditions rest g1 of (rest', g2) \<Rightarrow>
        ((location_name, cond') # rest', g2))"

text \<open>
  The kind-specific side effects of \<open>_generate_disaster\<close> on the condition of the chosen
  location (lines 159-173).
\<close>

fun disaster_effects :: "disaster_type \<Rightarrow> condition \<Rightarrow> rng \<Rightarrow> condition \<times> rng" where
  "disaster_effects FLOOD cond g =
     (case uniform 1 5 g of (w, g1) \<Rightarrow>
        (cond\<lparr>water_level := w, humidity := min 100 (humidity cond + 20)\<rparr>, g1))"
| "disaster_effects FIRE cond g =
     (case uniform 10 30 g of (t, g1) \<Rightarrow>
      case uniform 100 300 g1 of (a, g2) \<Rightarrow>
        (cond\<lparr>smoke_detected := True, temperature := temperature cond + t,
               air_quality := air_quality cond + a\<rparr>, g2))"
| "disaster_effects EARTHQUAKE cond g =
     (case uniform 3 8 g of (s, g1) \<Rightarrow> (cond\<lparr>seismic_activity := s\<rparr>, g1))"
| "disaster_effects DROUGHT cond g =
     (case uniform 5 15 g of (t, g1) \<Rightarrow>
        (cond\<lparr>temperature := temperature cond + t,
               humidity := max 20 (humidity cond - 30)\<rparr>, g1))"
| "disaster_effects STORM cond g =
     (case uniform 50 150 g of (w, g1) \<Rightarrow>
        (cond\<lparr>wind_speed := w, humidity := min 100 (humidity cond + 15)\<rparr>, g1))"

text \<open>The event identifier \<open>f"D{self.event_counter:04d}"\<close>.\<close>

definition digit_char :: "nat \<Rightarrow> char" where
  "digit_char d = ''0123456789'' ! d"

fun decimal :: "nat \<Rightarrow> string" where
  "decimal n = (if n < 10 then [digit_char n] else decimal (n div 10) @ [digit_char (n mod 10)])"

declare decimal.simps [simp del]

definition format_event_id :: "nat \<Rightarrow> string" where
  "format_event_id n =
     ''D'' @ replicate (4 - length (decimal n)) (CHR ''0'') @ decimal n"

text \<open>
  The construction of the \<open>DisasterEvent\<close> (lines 176-191); the arguments draw in the
  order they are written.
\<close>

definition create_event ::
  "datetime \<Rightarrow> nat \<Rightarrow> disaster_type \<Rightarrow> location \<Rightarrow> severity \<Rightarrow> rng \<Rightarrow>
   error + (disaster_event \<times> rng)" where
  "create_event now counter dtype loc sev g =
     (case uniform 0.5 50 g of (area, g1) \<Rightarrow>
      and_then (randint 0 (severity_value sev * 50) g1) (\<lambda>(cas, g2).
      case uniform (real_of_int (severity_value sev * 5)) (real_of_int (severity_value sev * 20)) g2
        of (dmg, g3) \<Rightarrow>
      and_then (randint 10 100 g3) (\<lambda>(medical, g4).
      and_then (randint 50 500 g4) (\<lambda>(food, g5).
      and_then (randint 100 1000 g5) (\<lambda>(water, g6).
      and_then (randint 2 20 g6) (\<lambda>(teams, g7).
        Inr (\<lparr>event_id = format_event_id counter, disaster_type = dtype, location = loc,
              severity = sev, timestamp = now, affected_area = area, casualties = cas,
              infrastructure_damage = dmg,
              resources_needed =
                [''medical_kits'' \<mapsto> medical, ''food_packages'' \<mapsto> food,
                 ''water_bottles'' \<mapsto> water, ''rescue_teams'' \<mapsto> teams]\<rparr>, g7)))))))"

text \<open>\<open>_generate_disaster\<close>: returns the new event with the updated environment.\<close>

definition generate_disaster ::
  "datetime \<Rightarrow> environment \<Rightarrow> rng \<Rightarrow> error + (disaster_event \<times> environment \<times> rng)" where
  "generate_disaster now env g =
     (let counter = event_counter env + 1 in
      and_then (choice list_DisasterType g) (\<lambda>(dtype, g1).
      and_then (choice (locations env) g1) (\<lambda>(loc, g2).
      and_then (choice list_Severity g2) (\<lambda>(sev, g3).
      and_then (lookup (current_conditions env) (name loc)) (\<lambda>cond.
      case disaster_effects dtype cond g3 of (cond', g4) \<Rightarrow>
      and_then (create_event now counter dtype loc sev g4) (\<lambda>(event, g5).
        Inr (event,
             env\<lparr>event_counter := counter,
                  current_conditions := AList.update (name loc) cond' (current_conditions env),
                  active_disasters := active_disasters env @ [event]\<rparr>,
             g5)))))))"

text \<open>
  \<open>_update_disasters\<close>, first loop (lines 200-211): every active disaster resolves with
  probability 0.20; a resolved one is noted for removal and the condition of its location
  is reset according to its kind.
\<close>

fun reset_condition :: "disaster_type \<Rightarrow> condition \<Rightarrow> condition" where
  "reset_condition FLOOD cond = cond\<lparr>water_level := 0\<rparr>"
| "reset_condition FIRE cond = cond\<lparr>smoke_detected := False\<rparr>"
| "reset_condition EARTHQUAKE cond = cond\<lparr>seismic_activity := 0\<rparr>"
| "reset_condition DROUGHT cond = cond"
| "reset_condition STORM cond = cond"

fun resolve_disasters ::
  "disaster_event list \<Rightarrow> disaster_event list \<Rightarrow> (string \<times> condition) list \<Rightarrow> rng \<Rightarrow>
   error + (disaster_event list \<times> (string \<times> condition) list \<times> rng)" where
  "resolve_disasters [] disasters_to_remove conditions g = Inr (disasters_to_remove, conditions, g)"
| "resolve_disasters (disaster # rest) disasters_to_remove conditions g =
     (case random g of (u, g1) \<Rightarrow>
        if u < 0.20 then
          and_then (lookup conditions (name (location disaster))) (\<lambda>cond.
            resolve_disasters rest (disasters_to_remove @ [disaster])
              (AList.update (name (location disaster))
                 (reset_condition (disaster_type disaster) cond) conditions)
              g1)
        else resolve_disasters rest disasters_to_remove conditions g1)"

text \<open>
  Second loop (lines 213-214): \<open>list.remove\<close> deletes the first equal element and raises
  \<open>ValueError\<close> when there is none.
\<close>

fun remove_disasters :: "disaster_event list \<Rightarrow> disaster_event list \<Rightarrow> error + disaster_event list" where
  "remove_disasters [] active = Inr active"
| "remove_disasters (disaster # rest) active =
     (if disaster \<in> set active then remove_disasters rest (remove1 disaster active)
      else Inl ValueError)"

definition update_disasters :: "environment \<Rightarrow> rng \<Rightarrow> error + (environment \<times> rng)" where
  "update_disasters env g =
     and_then (resolve_disasters (active_disasters env) [] (current_conditions env) g)
       (\<lambda>(disasters_to_remove, conditions, g1).
     and_then (remove_disasters disasters_to_remove (active_disasters env)) (\<lambda>active.
       Inr (env\<lparr>current_conditions := conditions, active_disasters := active\<rparr>, g1)))"

text \<open>\<open>update_environment\<close>: drift, a spawn with probability 0.80, then the resolutions.\<close>

definition update_environment :: "datetime \<Rightarrow> environment \<Rightarrow> rng \<Rightarrow> error + (environment \<times> rng)" where
  "update_environment now env g =
     (case drift_conditions (current_conditions env) g of (conditions, g1) \<Rightarrow>
      let env1 = env\<lparr>current_conditions := conditions\<rparr> in
      case random g1 of (u, g2) \<Rightarrow>
      and_then
        (if u < 0.80
         then and_then (generate_disaster now env1 g2) (\<lambda>(event, env2, g3). Inr (env2, g3))
         else Inr (env1, g2))
        (\<lambda>(env2, g3). update_disasters env2 g3))"

text \<open>
  \<open>sense\<close>: a method of the environment object. Like every method it is given the state of
  the object and returns it with its result; \<open>sense\<close> assigns to no attribute, so the
  state it returns is the state it was given. A location that is not a key raises.
\<close>

definition sense ::
  "environment \<Rightarrow> location \<Rightarrow> datetime \<Rightarrow> error + (percept \<times> environment)" where
  "sense env loc now =
     and_then (lookup (current_conditions env) (name loc)) (\<lambda>cond.
       Inr (\<lparr>p_timestamp = now, p_location = loc,
             p_temperature = temperature cond, p_humidity = humidity cond,
             p_wind_speed = wind_speed cond, p_air_quality = air_quality cond,
             p_seismic_activity = seismic_activity cond, p_water_level = water_level cond,
             p_smoke_detected = smoke_detected cond,
             p_active_disasters =
               filter (\<lambda>d. name (location d) = name loc) (active_disasters env)\<rparr>,
            env))"

text \<open>
  \<open>get_all_percepts\<close>: one call of \<open>sense\<close> per location, in the order of the registry,
  each on the state the previous call left.
\<close>

fun sense_all ::
  "environment \<Rightarrow> location list \<Rightarrow> datetime \<Rightarrow> error + (percept list \<times> environment)" where
  "sense_all env [] now = Inr ([], env)"
| "sense_all env (loc # locs) now =
     and_then (sense env loc now) (\<lambda>(p, env1).
     and_then (sense_all env1 locs now) (\<lambda>(ps, env2). Inr (p # ps, env2)))"

definition get_all_percepts ::
  "environment \<Rightarrow> datetime \<Rightarrow> error + (percept list \<times> environment)" where
  "get_all_percepts env now = sense_all env (locations env) now"

section \<open>The reactive agent (lab3\_goal\_event\_fsm\_agent.py)\<close>

datatype response_state = MONITORING | ASSESSING | DISPATCHING | RECOVERY

datatype event_type =
  TEMP_SPIKE | WATER_RISE | DISASTER_DETECTED | SEVERITY_ESCALATION | RESOURCE_SHORTAGE

text \<open>
  The \<open>details\<close> strings are f-strings over floats and enum names; they are kept as the
  values that are formatted.
\<close>

datatype details =
  Temperature_at real
| Water_level_at real
| Kind_and_severity disaster_type severity
| Severity_is severity
| High_rescue_team_requirement

text \<open>
  A derived event is a dictionary with the keys \<open>type\<close>, \<open>location\<close>, \<open>details\<close> and,
  for the disaster-linked kinds only, \<open>disaster\<close>.
\<close>

record derived_event =
  ev_type :: event_type
  ev_location :: string
  ev_disaster :: "disaster_event option"
  ev_details :: details

text \<open>The messages passed to \<open>_log\<close>, again as the values that are formatted.\<close>

datatype message =
  Text string
| State_change response_state response_state string
| Event_line event_type string details
| Assessment disaster_type string severity
| Dispatch int int string
| Goal_alignment string
| Initial_state response_state
| Cycle_line nat int

record transition =
  from_state :: response_state
  to_state :: response_state
  reason :: string
  time :: datetime

record agent =
  agent_id :: string
  state :: response_state
  trace :: "(datetime \<times> string \<times> message) list"
  transition_history :: "transition list"
  last_handled_event_ids :: "string set"

text \<open>\<open>AgentGoals\<close>: the three default goal texts.\<close>

definition rescue_people :: string where
  "rescue_people = ''Minimize casualties through rapid rescue dispatch''"

definition stabilize_infrastructure :: string where
  "stabilize_infrastructure = ''Reduce infrastructure damage escalation''"

definition optimize_resources :: string where
  "optimize_resources = ''Allocate rescue resources efficiently''"

text \<open>
  \<open>GoalReactiveResponseAgent.__init__\<close>. Its assignments of the attributes that the policy
  reads and writes (lines 55-61) give the agent below; the environment it keeps a reference
  to is passed next to the agent where both are used. Its last line,
  \<open>self.trace_file.parent.mkdir(exist_ok=True)\<close>, creates the directory \<open>logs\<close>: the file
  system decides whether that raises (a file of that name, no permission), so its outcome
  is a parameter, and the constructor as a whole is \<open>GoalReactiveResponseAgent\<close>.
\<close>

definition GoalReactiveResponseAgent_init :: "string \<Rightarrow> agent" where
  "GoalReactiveResponseAgent_init aid =
     \<lparr>agent_id = aid, state = MONITORING, trace = [], transition_history = [],
      last_handled_event_ids = {}\<rparr>"

definition mkdir :: "error option \<Rightarrow> error + unit" where
  "mkdir outcome = (case outcome of None \<Rightarrow> Inr () | Some e \<Rightarrow> Inl e)"

definition GoalReactiveResponseAgent :: "string \<Rightarrow> error option \<Rightarrow> error + agent" where
  "GoalReactiveResponseAgent aid outcome =
     and_then (mkdir outcome) (\<lambda>_. Inr (GoalReactiveResponseAgent_init aid))"

text \<open>\<open>_log\<close>.\<close>

definition log :: "datetime \<Rightarrow> message \<Rightarrow> agent \<Rightarrow> agent" where
  "log now m a = a\<lparr>trace := trace a @ [(now, agent_id a, m)]\<rparr>"

text \<open>\<open>_switch_state\<close>.\<close>

definition switch_state :: "datetime \<Rightarrow> response_state \<Rightarrow> string \<Rightarrow> agent \<Rightarrow> agent" where
  "switch_state now new_state why a =
     (let old_state = state a in
      if old_state = new_state then a
      else
        log now (State_change old_state new_state why)
          (a\<lparr>state := new_state,
             transition_history := transition_history a @
               [\<lparr>from_state = old_state, to_state = new_state, reason = why, time = now\<rparr>]\<rparr>))"

text \<open>\<open>dict.get(key, default)\<close>.\<close>

definition get_default :: "(string \<rightharpoonup> int) \<Rightarrow> string \<Rightarrow> int \<Rightarrow> int" where
  "get_default d k dflt = (case d k of None \<Rightarrow> dflt | Some v \<Rightarrow> v)"

text \<open>
  \<open>_derive_events\<close>, inner loop (lines 113-143) over the active disasters of one percept.
  The list \<open>derived_events\<close> and the set \<open>last_handled_event_ids\<close> are the accumulators.
\<close>

fun derive_disasters ::
  "string \<Rightarrow> disaster_event list \<Rightarrow> derived_event list \<Rightarrow> string set \<Rightarrow>
   derived_event list \<times> string set" where
  "derive_disasters loc [] derived_events seen = (derived_events, seen)"
| "derive_disasters loc (disaster # rest) derived_events seen =
     (let (derived1, seen1) =
            (if event_id disaster \<notin> seen
             then (derived_events @
                     [\<lparr>ev_type = DISASTER_DETECTED, ev_location = loc,
                       ev_disaster = Some disaster,
                       ev_details = Kind_and_severity (disaster_type disaster) (severity disaster)\<rparr>],
                   insert (event_id disaster) seen)
             else (derived_events, seen));
          derived2 =
            (if severity_value (severity disaster) \<ge> severity_value CRITICAL
             then derived1 @
                    [\<lparr>ev_type = SEVERITY_ESCALATION, ev_location = loc,
                      ev_disaster = Some disaster,
                      ev_details = Severity_is (severity disaster)\<rparr>]
             else derived1);
          derived3 =
            (if get_default (resources_needed disaster) ''rescue_teams'' 0 \<ge> 12
             then derived2 @
                    [\<lparr>ev_type = RESOURCE_SHORTAGE, ev_location = loc,
                      ev_disaster = Some disaster,
                      ev_details = High_rescue_team_requirement\<rparr>]
             else derived2)
      in derive_disasters loc rest derived3 seen1)"

text \<open>The outer loop (lines 94-143) over the percepts.\<close>

fun derive_percepts ::
  "percept list \<Rightarrow> derived_event list \<Rightarrow> string set \<Rightarrow> derived_event list \<times> string set" where
  "derive_percepts [] derived_events seen = (derived_events, seen)"
| "derive_percepts (p # rest) derived_events seen =
     (let derived1 =
            (if p_temperature p \<ge> 42
             then derived_events @
                    [\<lparr>ev_type = TEMP_SPIKE, ev_location = name (p_location p),
                      ev_disaster = None, ev_details = Temperature_at (p_temperature p)\<rparr>]
             else derived_events);
          derived2 =
            (if p_water_level p \<ge> 1.5
             then derived1 @
                    [\<lparr>ev_type = WATER_RISE, ev_location = name (p_location p),
                      ev_disaster = None, ev_details = Water_level_at (p_water_level p)\<rparr>]
             else derived1);
          (derived3, seen1) =
            derive_disasters (name (p_location p)) (p_active_disasters p) derived2 seen
      in derive_percepts rest derived3 seen1)"

text \<open>\<open>_derive_events\<close>: the list starts empty; the seen-set is the agent's.\<close>

definition derive_events :: "percept list \<Rightarrow> agent \<Rightarrow> derived_event list \<times> agent" where
  "derive_events percepts a =
     (case derive_percepts percepts [] (last_handled_event_ids a) of
        (derived_events, seen) \<Rightarrow> (derived_events, a\<lparr>last_handled_event_ids := seen\<rparr>))"

text \<open>
  The built-in \<open>max(iterable, key=...)\<close>: the first item is the candidate, and a later
  item replaces it only when its key is strictly greater. The keys are tuples, which
  Python compares lexicographically.
\<close>

fun python_max :: "('a \<Rightarrow> 'k::linorder) \<Rightarrow> 'a \<Rightarrow> 'a list \<Rightarrow> 'a" where
  "python_max key max_item [] = max_item"
| "python_max key max_item (item # rest) =
     (if key item > key max_item then python_max key item rest
      else python_max key max_item rest)"

definition priority_key :: "disaster_event \<Rightarrow> int \<times> int \<times> real" where
  "priority_key disaster =
     (severity_value (severity disaster), casualties disaster, infrastructure_damage disaster)"

text \<open>\<open>_prioritize_disaster\<close>.\<close>

definition prioritize_disaster :: "derived_event list \<Rightarrow> disaster_event option" where
  "prioritize_disaster events =
     (case List.map_filter ev_disaster events of
        [] \<Rightarrow> None
      | d # disasters \<Rightarrow> Some (python_max priority_key d disasters))"

text \<open>\<open>_react\<close>.\<close>

definition react :: "datetime \<Rightarrow> derived_event list \<Rightarrow> agent \<Rightarrow> agent" where
  "react now events a =
     (if events = [] then
        log now (Text ''Action: Continue periodic monitoring'')
          (if state a \<noteq> MONITORING
           then switch_state now MONITORING ''No active trigger events'' a
           else a)
      else
        let a0 = fold (\<lambda>event. log now
                   (Event_line (ev_type event) (ev_location event) (ev_details event))) events a;
            priority_disaster = prioritize_disaster events;
            a1 = (if state a0 = MONITORING
                  then switch_state now ASSESSING ''Disaster-related event detected'' a0
                  else a0);
            a2 = (if state a1 = ASSESSING
                  then switch_state now DISPATCHING ''Assessment complete''
                         (case priority_disaster of
                            None \<Rightarrow> a1
                          | Some d \<Rightarrow>
                              log now (Assessment (disaster_type d) (name (location d))
                                         (severity d)) a1)
                  else a1);
            a3 = (if state a2 = DISPATCHING
                  then switch_state now RECOVERY ''Initial dispatch actions completed''
                         (case priority_disaster of
                            None \<Rightarrow> a2
                          | Some d \<Rightarrow>
                              log now (Goal_alignment optimize_resources)
                                (log now (Goal_alignment rescue_people)
                                   (log now
                                      (Dispatch (get_default (resources_needed d) ''rescue_teams'' 0)
                                         (get_default (resources_needed d) ''medical_kits'' 0)
                                         (name (location d))) a2)))
                  else a2)
        in
          if state a3 = RECOVERY then
            (case priority_disaster of
               None \<Rightarrow> a3
             | Some d \<Rightarrow>
                 if severity_value (severity d) \<le> severity_value MODERATE then
                   switch_state now MONITORING ''Disaster impact under control''
                     (log now
                        (Text ''Recovery: Situation is stabilizing; downgrade response level'') a3)
                 else
                   switch_state now MONITORING ''Return to monitor after recovery cycle''
                     (log now (Goal_alignment stabilize_infrastructure)
                        (log now
                           (Text ''Recovery: Continue containment and infrastructure stabilization'')
                           a3)))
          else a3)"

text \<open>
  \<open>asyncio.sleep(delay)\<close> is a library call that touches no state of the agent or the
  environment. For a delay that is zero or negative it returns at once. Otherwise it adds
  the delay to the loop's clock, a float: an integer that is too large for a float, from
  \<open>float_limit\<close> on, raises \<open>OverflowError\<close>; any other delay is waited for.
\<close>

definition float_limit :: int where
  "float_limit = 2 ^ 1024 - 2 ^ 970"

definition sleep :: "int \<Rightarrow> 's \<Rightarrow> error + 's" where
  "sleep delay st =
     (if delay \<le> 0 then Inr st
      else if delay \<ge> float_limit then Inl OverflowError
      else Inr st)"

text \<open>
  \<open>run\<close>: the loop \<open>for cycle in range(1, cycles + 1)\<close>, its body first. \<open>clock\<close> gives
  the wall-clock reading of each cycle; writing the trace file at the end is not modelled.
\<close>

definition run_cycle ::
  "(nat \<Rightarrow> datetime) \<Rightarrow> int \<Rightarrow> int \<Rightarrow> nat \<Rightarrow> agent \<times> environment \<times> rng \<Rightarrow>
   error + (agent \<times> environment \<times> rng)" where
  "run_cycle clock cycles interval_seconds cycle = (\<lambda>(a, env, g).
     let a1 = log (clock cycle) (Cycle_line cycle cycles) a in
     and_then (update_environment (clock cycle) env g) (\<lambda>(env', g').
     and_then (get_all_percepts env' (clock cycle)) (\<lambda>(percepts, env'').
     case derive_events percepts a1 of (events, a2) \<Rightarrow>
       sleep interval_seconds (react (clock cycle) events a2, env'', g'))))"

fun run_cycles ::
  "(nat \<Rightarrow> datetime) \<Rightarrow> int \<Rightarrow> int \<Rightarrow> nat list \<Rightarrow> agent \<times> environment \<times> rng \<Rightarrow>
   error + (agent \<times> environment \<times> rng)" where
  "run_cycles clock cycles interval_seconds [] st = Inr st"
| "run_cycles clock cycles interval_seconds (cycle # rest) st =
     and_then (run_cycle clock cycles interval_seconds cycle st)
       (run_cycles clock cycles interval_seconds rest)"

definition run ::
  "(nat \<Rightarrow> datetime) \<Rightarrow> int \<Rightarrow> int \<Rightarrow> agent \<times> environment \<times> rng \<Rightarrow>
   error + (agent \<times> environment \<times> rng)" where
  "run clock cycles interval_seconds = (\<lambda>(a, env, g).
     let a1 = log (clock 0) (Text ''Starting goal-driven reactive response agent'') a;
         a2 = log (clock 0) (Initial_state (state a1)) a1
     in and_then
          (run_cycles clock cycles interval_seconds [1 ..< nat (cycles + 1)] (a2, env, g))
          (\<lambda>(a3, env', g').
             let a4 = log (clock (nat cycles + 1)) (Text ''Simulation completed'') a3;
                 a5 = log (clock (nat cycles + 1))
                        (Text ''Execution trace saved to logs/LAB3_execution_trace.txt'') a4
             in Inr (a5, env', g')))"

section \<open>Predicates and concrete inputs used in the statements\<close>

text \<open>
  The environment as its constructor leaves it and every operation keeps it: there is a
  location, and every registered location and every active disaster's location names a key
  of the condition store.
\<close>

definition well_formed :: "environment \<Rightarrow> bool" where
  "well_formed env =
     (locations env \<noteq> [] \<and>
      (\<forall>l \<in> set (locations env). name l \<in> fst ` set (current_conditions env)) \<and>
      (\<forall>d \<in> set (active_disasters env). name (location d) \<in> fst ` set (current_conditions env)))"

text \<open>The dictionary \<open>resources_needed\<close> maps the key to a positive quantity in the bounds.\<close>

definition resource_within :: "disaster_event \<Rightarrow> string \<Rightarrow> int \<Rightarrow> int \<Rightarrow> bool" where
  "resource_within d k lo hi =
     (case resources_needed d k of None \<Rightarrow> False | Some q \<Rightarrow> 0 < q \<and> lo \<le> q \<and> q \<le> hi)"

text \<open>A synthetic disaster at Accra with a given identifier, severity and casualty count.\<close>

definition synthetic_disaster :: "string \<Rightarrow> severity \<Rightarrow> int \<Rightarrow> disaster_event" where
  "synthetic_disaster i s c =
     \<lparr>event_id = i, disaster_type = FLOOD,
      location = \<lparr>latitude = 5.6037, longitude = -0.1870, name = ''Accra''\<rparr>,
      severity = s, timestamp = 0, affected_area = 1, casualties = c,
      infrastructure_damage = 10,
      resources_needed =
        [''medical_kits'' \<mapsto> 10, ''food_packages'' \<mapsto> 50,
         ''water_bottles'' \<mapsto> 100, ''rescue_teams'' \<mapsto> 2]\<rparr>"

text \<open>The \<open>DISASTER_DETECTED\<close> event that \<open>_derive_events\<close> builds for a disaster.\<close>

definition detected :: "disaster_event \<Rightarrow> derived_event" where
  "detected d =
     \<lparr>ev_type = DISASTER_DETECTED, ev_location = name (location d), ev_disaster = Some d,
      ev_details = Kind_and_severity (disaster_type d) (severity d)\<rparr>"

text \<open>
  The lexicographic order on (severity ordinal, casualties, infrastructure damage), written
  out component by component.
\<close>

definition lexicographically_less :: "disaster_event \<Rightarrow> disaster_event \<Rightarrow> bool" where
  "lexicographically_less a b =
     (severity_value (severity a) < severity_value (severity b) \<or>
      severity_value (severity a) = severity_value (severity b) \<and>
        (casualties a < casualties b \<or>
         casualties a = casualties b \<and> infrastructure_damage a < infrastructure_damage b))"

text \<open>
  The transition history read as a path: it starts in the first state, every record leaves
  the state the path is in for a different one, and the path ends in the last state.
\<close>

fun history_chain :: "response_state \<Rightarrow> transition list \<Rightarrow> response_state \<Rightarrow> bool" where
  "history_chain s [] t = (s = t)"
| "history_chain s (r # rs) t =
     (from_state r = s \<and> from_state r \<noteq> to_state r \<and> history_chain (to_state r) rs t)"

text \<open>
  The agent states that the methods of the class produce: the constructor's, and from any
  of them the result of \<open>_log\<close>, \<open>_switch_state\<close>, \<open>_derive_events\<close> or \<open>_react\<close> on
  any arguments.
\<close>

inductive reachable :: "agent \<Rightarrow> bool" where
  init: "reachable (GoalReactiveResponseAgent_init aid)"
| log: "reachable a \<Longrightarrow> reachable (log now m a)"
| switch_state: "reachable a \<Longrightarrow> reachable (switch_state now new_state why a)"
| derive_events: "reachable a \<Longrightarrow> reachable (snd (derive_events percepts a))"
| react: "reachable a \<Longrightarrow> reachable (react now events a)"

text \<open>A percept of Accra at 43 degrees with no active disaster.\<close>

definition hot_percept :: percept where
  "hot_percept =
     \<lparr>p_timestamp = 0,
      p_location = \<lparr>latitude = 5.6037, longitude = -0.1870, name = ''Accra''\<rparr>,
      p_temperature = 43, p_humidity = 60, p_wind_speed = 10, p_air_quality = 100,
      p_seismic_activity = 0, p_water_level = 0, p_smoke_detected = False,
      p_active_disasters = []\<rparr>"

text \<open>The transition history of an agent is a path from MONITORING to its current state.\<close>

definition chained :: "agent \<Rightarrow> bool" where
  "chained a = history_chain MONITORING (transition_history a) (state a)"

text \<open>
  The loops of \<open>_derive_events\<close> without their accumulators, for the proofs: the events
  one disaster contributes under a given seen-set, the blocks of a percept's disasters with
  the seen-set growing from one disaster to the next, and the events of a list of percepts.
  The lemmas \<open>derive_disasters_blocks\<close> and \<open>derive_percepts_events\<close> prove that the
  loops compute them.
\<close>

definition disaster_block :: "string \<Rightarrow> string set \<Rightarrow> disaster_event \<Rightarrow> derived_event list" where
  "disaster_block loc seen disaster =
     (if event_id disaster \<notin> seen
      then [\<lparr>ev_type = DISASTER_DETECTED, ev_location = loc, ev_disaster = Some disaster,
             ev_details = Kind_and_severity (disaster_type disaster) (severity disaster)\<rparr>]
      else []) @
     (if severity_value (severity disaster) \<ge> severity_value CRITICAL
      then [\<lparr>ev_type = SEVERITY_ESCALATION, ev_location = loc, ev_disaster = Some disaster,
             ev_details = Severity_is (severity disaster)\<rparr>]
      else []) @
     (if get_default (resources_needed disaster) ''rescue_teams'' 0 \<ge> 12
      then [\<lparr>ev_type = RESOURCE_SHORTAGE, ev_location = loc, ev_disaster = Some disaster,
             ev_details = High_rescue_team_requirement\<rparr>]
      else [])"

fun disaster_blocks ::
  "string \<Rightarrow> disaster_event list \<Rightarrow> string set \<Rightarrow> derived_event list list" where
  "disaster_blocks loc [] seen = []"
| "disaster_blocks loc (d # ds) seen =
     disaster_block loc seen d # disaster_blocks loc ds (insert (event_id d) seen)"

definition threshold_events :: "percept \<Rightarrow> derived_event list" where
  "threshold_events p =
     (if p_temperature p \<ge> 42
      then [\<lparr>ev_type = TEMP_SPIKE, ev_location = name (p_location p), ev_disaster = None,
             ev_details = Temperature_at (p_temperature p)\<rparr>]
      else []) @
     (if p_water_level p \<ge> 1.5
      then [\<lparr>ev_type = WATER_RISE, ev_location = name (p_location p), ev_disaster = None,
             ev_details = Water_level_at (p_water_level p)\<rparr>]
      else [])"

definition percept_ids :: "percept list \<Rightarrow> string set" where
  "percept_ids ps = event_id ` (\<Union>p \<in> set ps. set (p_active_disasters p))"

fun percepts_events :: "percept list \<Rightarrow> string set \<Rightarrow> derived_event list" where
  "percepts_events [] seen = []"
| "percepts_events (p # ps) seen =
     threshold_events p @
     concat (disaster_blocks (name (p_location p)) (p_active_disasters p) seen) @
     percepts_events ps (seen \<union> event_id ` set (p_active_disasters p))"

text \<open>The position of an event type in the rule list of the event deriver.\<close>

fun rule_rank :: "event_type \<Rightarrow> nat" where
  "rule_rank TEMP_SPIKE = 0"
| "rule_rank WATER_RISE = 1"
| "rule_rank DISASTER_DETECTED = 2"
| "rule_rank SEVERITY_ESCALATION = 3"
| "rule_rank RESOURCE_SHORTAGE = 4"

text \<open>The \<open>DISASTER_DETECTED\<close> events for the disaster identifier \<open>i\<close> in a list of events.\<close>

definition detections :: "string \<Rightarrow> derived_event list \<Rightarrow> derived_event list" where
  "detections i events =
     filter (\<lambda>e. ev_type e = DISASTER_DETECTED \<and>
                 (case ev_disaster e of None \<Rightarrow> False | Some d \<Rightarrow> event_id d = i)) events"

text \<open>A percept of Accra with a given temperature, water level and list of active disasters.\<close>

definition accra_percept :: "real \<Rightarrow> real \<Rightarrow> disaster_event list \<Rightarrow> percept" where
  "accra_percept t w ds =
     \<lparr>p_timestamp = 0,
      p_location = \<lparr>latitude = 5.6037, longitude = -0.1870, name = ''Accra''\<rparr>,
      p_temperature = t, p_humidity = 60, p_wind_speed = 10, p_air_quality = 100,
      p_seismic_activity = 0, p_water_level = w, p_smoke_detected = False,
      p_active_disasters = ds\<rparr>"

text \<open>The ranges that the clipping of \<open>update_environment\<close> documents.\<close>

definition documented_ranges :: "condition \<Rightarrow> bool" where
  "documented_ranges c =
     (20 \<le> temperature c \<and> temperature c \<le> 45 \<and>
      30 \<le> humidity c \<and> humidity c \<le> 100 \<and>
      0 \<le> air_quality c \<and> air_quality c \<le> 500 \<and>
      0 \<le> wind_speed c \<and> 0 \<le> water_level c)"

text \<open>
  The ranges that hold at the location of a spawn: a fire adds up to 30 degrees and up to
  300 index points after the clipping, and a drought lowers the humidity to no less than 20.
\<close>

definition widened_ranges :: "condition \<Rightarrow> bool" where
  "widened_ranges c =
     (20 \<le> temperature c \<and> temperature c \<le> 75 \<and>
      20 \<le> humidity c \<and> humidity c \<le> 100 \<and>
      0 \<le> air_quality c \<and> air_quality c \<le> 800 \<and>
      0 \<le> wind_speed c \<and> 0 \<le> water_level c)"

text \<open>
  What the resolution step may do to a condition: the drift fields stay, and each of water
  level, smoke flag and seismic activity stays or is reset.
\<close>

definition reset_of :: "condition \<Rightarrow> condition \<Rightarrow> bool" where
  "reset_of c c' =
     (temperature c' = temperature c \<and> humidity c' = humidity c \<and>
      wind_speed c' = wind_speed c \<and> air_quality c' = air_quality c \<and>
      (water_level c' = water_level c \<or> water_level c' = 0) \<and>
      (smoke_detected c' = smoke_detected c \<or> \<not> smoke_detected c') \<and>
      (seismic_activity c' = seismic_activity c \<or> seismic_activity c' = 0))"

text \<open>The reset that the resolution of a disaster of the given kind leaves behind.\<close>

definition reset_done :: "disaster_type \<Rightarrow> condition \<Rightarrow> bool" where
  "reset_done t c =
     ((t = FLOOD \<longrightarrow> water_level c = 0) \<and>
      (t = FIRE \<longrightarrow> \<not> smoke_detected c) \<and>
      (t = EARTHQUAKE \<longrightarrow> seismic_activity c = 0))"

text \<open>A finite list of draws followed by a constant one, for concrete runs.\<close>

definition draws :: "real list \<Rightarrow> real \<Rightarrow> rng" where
  "draws xs d = (\<lambda>n. if n < length xs then xs ! n else d)"

text \<open>The condition every location has after construction when every draw is 1/2.\<close>

definition calm :: condition where
  "calm = \<lparr>temperature = 30, humidity = 75, wind_speed = 15, air_quality = 100,
           seismic_activity = 0, water_level = 0, smoke_detected = False\<rparr>"

text \<open>
  An environment with one active flood at Accra, where the water stands at 3 metres.
\<close>

definition flood_scene :: environment where
  "flood_scene =
     \<lparr>event_counter = 1,
      active_disasters = [synthetic_disaster ''D0001'' HIGH 5],
      locations = initialize_locations,
      current_conditions =
        (''Accra'', calm\<lparr>water_level := 3, humidity := 95\<rparr>) #
        map (\<lambda>n. (n, calm)) [''Kumasi'', ''Tema'', ''Tamale'', ''Cape Coast'']\<rparr>"

text \<open>
  The draws of two ticks. In the first the drift draws are 1/2 (no change), the spawn draw
  is 1/2 (a spawn), the kind draw is 9/10 (STORM), the location draw is 0 (Accra), and every
  later draw is 1/2 (wind speed 100; no resolution). In the second the drift draws are 1/2,
  the spawn draw is 9/10 (no spawn) and the resolution draw is 1/10 (the storm resolves).
\<close>

definition storm_tick :: rng where
  "storm_tick =
     draws [1/2, 1/2, 1/2, 1/2, 1/2, 1/2, 1/2, 1/2, 1/2, 1/2,
            1/2, 1/2, 1/2, 1/2, 1/2, 1/2, 1/2, 1/2, 1/2, 1/2,
            1/2, 9/10, 0] (1/2)"

definition resolution_tick :: rng where
  "resolution_tick =
     draws [1/2, 1/2, 1/2, 1/2, 1/2, 1/2, 1/2, 1/2, 1/2, 1/2,
            1/2, 1/2, 1/2, 1/2, 1/2, 1/2, 1/2, 1/2, 1/2, 1/2,
            9/10, 1/10] (1/2)"

text \<open>The ranges from which \<open>_initialize_conditions\<close> draws.\<close>

definition initial_ranges :: "condition \<Rightarrow> bool" where
  "initial_ranges c =
     (25 \<le> temperature c \<and> temperature c \<le> 35 \<and>
      60 \<le> humidity c \<and> humidity c \<le> 90 \<and>
      0 \<le> wind_speed c \<and> wind_speed c \<le> 30 \<and>
      50 \<le> air_quality c \<and> air_quality c \<le> 150 \<and>
      seismic_activity c = 0 \<and> water_level c = 0 \<and> \<not> smoke_detected c)"

text \<open>
  The agent after one tick from construction whose only percept is \<open>hot_percept\<close>.
\<close>

definition after_hot_tick :: agent where
  "after_hot_tick =
     react 0 (fst (derive_events [hot_percept] (GoalReactiveResponseAgent_init ''RESPONSE-001'')))
       (snd (derive_events [hot_percept] (GoalReactiveResponseAgent_init ''RESPONSE-001'')))"

section \<open>The random source: ranges of the draws\<close>

lemma valid_rng_random:
  "valid_rng g \<Longrightarrow> random g = (u, g') \<Longrightarrow> 0 \<le> u \<and> u < 1 \<and> valid_rng g'"
  by (auto simp: valid_rng_def random_def)

lemma uniform_range:
  assumes "valid_rng g" "a \<le> b" "uniform a b g = (x, g')"
  shows "a \<le> x \<and> x \<le> b \<and> valid_rng g'"
proof -
  obtain u where u: "random g = (u, g')" "x = a + (b - a) * u"
    using assms(3) by (auto simp: uniform_def split: prod.splits)
  from valid_rng_random[OF assms(1) u(1)] have r: "0 \<le> u" "u < 1" "valid_rng g'" by auto
  have "0 \<le> (b - a) * u" using r assms(2) by simp
  moreover have "(b - a) * u \<le> (b - a) * 1"
    using r assms(2) by (intro mult_left_mono) auto
  ultimately show ?thesis using u r by auto
qed

lemma randbelow_range:
  assumes "valid_rng g" "0 < n" "randbelow n g = (k, g')"
  shows "k < n \<and> valid_rng g'"
proof -
  obtain u where u: "random g = (u, g')" "k = nat \<lfloor>u * real n\<rfloor>"
    using assms(3) by (auto simp: randbelow_def split: prod.splits)
  from valid_rng_random[OF assms(1) u(1)] have r: "0 \<le> u" "u < 1" "valid_rng g'" by auto
  have "u * real n < real n" using r assms(2) by simp
  then have "\<lfloor>u * real n\<rfloor> < int n" by (simp add: floor_less_iff)
  then have "nat \<lfloor>u * real n\<rfloor> < n" using assms(2) by linarith
  then show ?thesis using u r by auto
qed

lemma randint_range:
  assumes "valid_rng g" "randint a b g = Inr (k, g')"
  shows "a \<le> k \<and> k \<le> b \<and> valid_rng g'"
proof -
  from assms(2) have ab: "a \<le> b" by (auto simp: randint_def split: if_splits)
  then obtain j where j: "randbelow (nat (b - a + 1)) g = (j, g')" "k = a + int j"
    using assms(2) by (auto simp: randint_def split: prod.splits)
  from randbelow_range[OF assms(1) _ j(1)] ab have "j < nat (b - a + 1)" "valid_rng g'" by auto
  then show ?thesis using j ab by auto
qed

lemma randint_ok: "a \<le> b \<Longrightarrow> \<exists>k g'. randint a b g = Inr (k, g')"
  by (auto simp: randint_def split: prod.splits)

lemma choice_range:
  assumes "valid_rng g" "choice xs g = Inr (x, g')"
  shows "x \<in> set xs \<and> valid_rng g'"
proof -
  from assms(2) have ne: "xs \<noteq> []" by (auto simp: choice_def split: if_splits)
  then obtain j where j: "randbelow (length xs) g = (j, g')" "x = xs ! j"
    using assms(2) by (auto simp: choice_def split: prod.splits)
  from randbelow_range[OF assms(1) _ j(1)] ne have "j < length xs" "valid_rng g'" by auto
  then show ?thesis using j by auto
qed

lemma choice_ok: "xs \<noteq> [] \<Longrightarrow> \<exists>x g'. choice xs g = Inr (x, g')"
  by (auto simp: choice_def split: prod.splits)

lemma format_event_id_1: "format_event_id 1 = ''D0001''"
  by (simp add: format_event_id_def decimal.simps digit_char_def numeral_3_eq_3)

section \<open>Spawned disasters\<close>

lemma severity_value_range: "1 \<le> severity_value s \<and> severity_value s \<le> 5"
  by (cases s) auto

lemma lookup_ok: "k \<in> fst ` set d \<Longrightarrow> \<exists>v. lookup d k = Inr v \<and> (k, v) \<in> set d"
proof -
  assume "k \<in> fst ` set d"
  then obtain v where "map_of d k = Some v"
    by (metis map_of_eq_None_iff not_Some_eq)
  then show ?thesis by (auto simp: lookup_def dest: map_of_SomeD)
qed

lemma uniform_rng: "valid_rng g \<Longrightarrow> uniform a b g = (x, g') \<Longrightarrow> valid_rng g'"
  by (auto simp: uniform_def random_def valid_rng_def)

lemma disaster_effects_rng:
  "valid_rng g \<Longrightarrow> disaster_effects t c g = (c', g') \<Longrightarrow> valid_rng g'"
  by (cases t) (auto split: prod.splits dest: uniform_rng)

lemma create_event_ok:
  assumes "valid_rng g"
  shows "\<exists>event g'. create_event now counter dtype loc sev g = Inr (event, g') \<and> valid_rng g' \<and>
      event_id event = format_event_id counter \<and> disaster_type event = dtype \<and>
      location event = loc \<and> severity event = sev \<and>
      0 \<le> casualties event \<and> casualties event \<le> 50 * severity_value sev \<and>
      real_of_int (5 * severity_value sev) \<le> infrastructure_damage event \<and>
      infrastructure_damage event \<le> real_of_int (20 * severity_value sev) \<and>
      0.5 \<le> affected_area event \<and> affected_area event \<le> 50 \<and>
      resource_within event ''medical_kits'' 10 100 \<and>
      resource_within event ''food_packages'' 50 500 \<and>
      resource_within event ''water_bottles'' 100 1000 \<and>
      resource_within event ''rescue_teams'' 2 20"
proof -
  have sv: "1 \<le> severity_value sev" "severity_value sev \<le> 5"
    using severity_value_range[of sev] by auto
  obtain area g1 where a: "uniform 0.5 50 g = (area, g1)" by (cases "uniform 0.5 50 g")
  from uniform_range[OF assms _ a] have a': "0.5 \<le> area" "area \<le> 50" "valid_rng g1" by auto
  obtain cas g2 where c: "randint 0 (severity_value sev * 50) g1 = Inr (cas, g2)"
    using randint_ok[of 0 "severity_value sev * 50" g1] sv by auto
  from randint_range[OF a'(3) c] have c': "0 \<le> cas" "cas \<le> severity_value sev * 50" "valid_rng g2"
    by auto
  obtain dmg g3 where d: "uniform (real_of_int (severity_value sev * 5))
      (real_of_int (severity_value sev * 20)) g2 = (dmg, g3)"
    by (cases "uniform (real_of_int (severity_value sev * 5))
      (real_of_int (severity_value sev * 20)) g2")
  have "real_of_int (severity_value sev * 5) \<le> real_of_int (severity_value sev * 20)"
    using sv by simp
  from uniform_range[OF c'(3) this d]
  have d': "real_of_int (severity_value sev * 5) \<le> dmg"
    "dmg \<le> real_of_int (severity_value sev * 20)" "valid_rng g3" by auto
  obtain m g4 where m: "randint 10 100 g3 = Inr (m, g4)" using randint_ok[of 10 100 g3] by auto
  from randint_range[OF d'(3) m] have m': "10 \<le> m" "m \<le> 100" "valid_rng g4" by auto
  obtain f g5 where f: "randint 50 500 g4 = Inr (f, g5)" using randint_ok[of 50 500 g4] by auto
  from randint_range[OF m'(3) f] have f': "50 \<le> f" "f \<le> 500" "valid_rng g5" by auto
  obtain w g6 where w: "randint 100 1000 g5 = Inr (w, g6)"
    using randint_ok[of 100 1000 g5] by auto
  from randint_range[OF f'(3) w] have w': "100 \<le> w" "w \<le> 1000" "valid_rng g6" by auto
  obtain t g7 where t: "randint 2 20 g6 = Inr (t, g7)" using randint_ok[of 2 20 g6] by auto
  from randint_range[OF w'(3) t] have t': "2 \<le> t" "t \<le> 20" "valid_rng g7" by auto
  let ?e = "\<lparr>event_id = format_event_id counter, disaster_type = dtype, location = loc,
              severity = sev, timestamp = now, affected_area = area, casualties = cas,
              infrastructure_damage = dmg,
              resources_needed =
                [''medical_kits'' \<mapsto> m, ''food_packages'' \<mapsto> f,
                 ''water_bottles'' \<mapsto> w, ''rescue_teams'' \<mapsto> t]\<rparr>"
  have e: "create_event now counter dtype loc sev g = Inr (?e, g7)"
    by (simp only: create_event_def and_then_def a c d m f w t prod.case sum.case)
  have b1: "casualties ?e \<le> 50 * severity_value sev" using c'(2) by simp
  have b2: "real_of_int (5 * severity_value sev) \<le> infrastructure_damage ?e"
    using d'(1) by (simp add: mult.commute)
  have b3: "infrastructure_damage ?e \<le> real_of_int (20 * severity_value sev)"
    using d'(2) by (simp add: mult.commute)
  have r1: "resource_within ?e ''medical_kits'' 10 100" using m' by (simp add: resource_within_def)
  have r2: "resource_within ?e ''food_packages'' 50 500" using f' by (simp add: resource_within_def)
  have r3: "resource_within ?e ''water_bottles'' 100 1000" using w' by (simp add: resource_within_def)
  have r4: "resource_within ?e ''rescue_teams'' 2 20" using t' by (simp add: resource_within_def)
  have b0: "0 \<le> casualties ?e" "0.5 \<le> affected_area ?e" "affected_area ?e \<le> 50"
    using c'(1) a'(1,2) by simp_all
  have sel: "event_id ?e = format_event_id counter" "disaster_type ?e = dtype"
    "location ?e = loc" "severity ?e = sev" by simp_all
  show ?thesis
    using e b0 b1 b2 b3 r1 r2 r3 r4 t'(3) sel by blast
qed

lemma valid_rng_half: "valid_rng (\<lambda>n. 1 / 2)"
  by (simp add: valid_rng_def)

lemma init_half:
  "fst (DisasterEnvironment_init (\<lambda>n. 1 / 2)) =
     \<lparr>event_counter = 0, active_disasters = [], locations = initialize_locations,
      current_conditions =
        map (\<lambda>n. (n, \<lparr>temperature = 30, humidity = 75, wind_speed = 15, air_quality = 100,
                       seismic_activity = 0, water_level = 0, smoke_detected = False\<rparr>))
          [''Accra'', ''Kumasi'', ''Tema'', ''Tamale'', ''Cape Coast'']\<rparr>"
  by (simp add: DisasterEnvironment_init_def initialize_locations_def uniform_def random_def)

lemma well_formed_init_half: "well_formed (fst (DisasterEnvironment_init (\<lambda>n. 1 / 2)))"
  unfolding init_half by (simp add: well_formed_def initialize_locations_def)

text \<open>
  C8. Every disaster spawned by \<open>_generate_disaster\<close> (which, on a well-formed
  environment and for draws in the unit interval, always returns one and appends it to the
  catalog) has casualties in \<open>[0, 50 * severity]\<close>, infrastructure damage in
  \<open>[5 * severity, 20 * severity]\<close>, affected area in \<open>[0.5, 50]\<close>, and each of the four
  resource quantities is a positive integer in its generation bounds: medical kits
  \<open>[10, 100]\<close>, food packages \<open>[50, 500]\<close>, water bottles \<open>[100, 1000]\<close>, rescue teams
  \<open>[2, 20]\<close>.
\<close>

theorem generate_disaster_magnitudes:
  assumes "valid_rng g" and "well_formed env"
  shows "\<exists>event env' g'. generate_disaster now env g = Inr (event, env', g') \<and>
      active_disasters env' = active_disasters env @ [event] \<and>
      0 \<le> casualties event \<and> casualties event \<le> 50 * severity_value (severity event) \<and>
      real_of_int (5 * severity_value (severity event)) \<le> infrastructure_damage event \<and>
      infrastructure_damage event \<le> real_of_int (20 * severity_value (severity event)) \<and>
      0.5 \<le> affected_area event \<and> affected_area event \<le> 50 \<and>
      resource_within event ''medical_kits'' 10 100 \<and>
      resource_within event ''food_packages'' 50 500 \<and>
      resource_within event ''water_bottles'' 100 1000 \<and>
      resource_within event ''rescue_teams'' 2 20"
proof -
  obtain dtype g1 where c1: "choice list_DisasterType g = Inr (dtype, g1)"
    using choice_ok[of list_DisasterType g] by (auto simp: list_DisasterType_def)
  from choice_range[OF assms(1) c1] have v1: "valid_rng g1" by simp
  obtain loc g2 where c2: "choice (locations env) g1 = Inr (loc, g2)"
    using choice_ok[of "locations env" g1] assms(2) by (auto simp: well_formed_def)
  from choice_range[OF v1 c2] have v2: "valid_rng g2" and loc: "loc \<in> set (locations env)"
    by simp_all
  obtain sev g3 where c3: "choice list_Severity g2 = Inr (sev, g3)"
    using choice_ok[of list_Severity g2] by (auto simp: list_Severity_def)
  from choice_range[OF v2 c3] have v3: "valid_rng g3" by simp
  from loc assms(2) have "name loc \<in> fst ` set (current_conditions env)"
    by (simp add: well_formed_def)
  then obtain cond where c4: "lookup (current_conditions env) (name loc) = Inr cond"
    using lookup_ok by blast
  obtain cond' g4 where c5: "disaster_effects dtype cond g3 = (cond', g4)"
    by (cases "disaster_effects dtype cond g3")
  from disaster_effects_rng[OF v3 c5] have v4: "valid_rng g4" .
  from create_event_ok[OF v4, of now "event_counter env + 1" dtype loc sev]
  obtain event g5 where
    c6: "create_event now (event_counter env + 1) dtype loc sev g4 = Inr (event, g5)"
    and sev: "severity event = sev"
    and b: "0 \<le> casualties event" "casualties event \<le> 50 * severity_value sev"
      "real_of_int (5 * severity_value sev) \<le> infrastructure_damage event"
      "infrastructure_damage event \<le> real_of_int (20 * severity_value sev)"
      "0.5 \<le> affected_area event" "affected_area event \<le> 50"
      "resource_within event ''medical_kits'' 10 100"
      "resource_within event ''food_packages'' 50 500"
      "resource_within event ''water_bottles'' 100 1000"
      "resource_within event ''rescue_teams'' 2 20"
    by blast
  let ?env' = "env\<lparr>event_counter := event_counter env + 1,
                  current_conditions := AList.update (name loc) cond' (current_conditions env),
                  active_disasters := active_disasters env @ [event]\<rparr>"
  have run: "generate_disaster now env g = Inr (event, ?env', g5)"
    by (simp only: generate_disaster_def Let_def and_then_def c1 c2 c3 c4 c5 c6 prod.case sum.case)
  have act: "active_disasters ?env' = active_disasters env @ [event]" by simp
  show ?thesis using run act b sev by blast
qed

theorem generate_disaster_magnitudes_witness:
  "valid_rng (\<lambda>n. 1 / 2) \<and> well_formed (fst (DisasterEnvironment_init (\<lambda>n. 1 / 2))) \<and>
   (\<exists>event env' g'.
      generate_disaster 0 (fst (DisasterEnvironment_init (\<lambda>n. 1 / 2))) (\<lambda>n. 1 / 2)
        = Inr (event, env', g') \<and>
      0 \<le> casualties event \<and> casualties event \<le> 50 * severity_value (severity event) \<and>
      resource_within event ''rescue_teams'' 2 20)"
proof -
  from generate_disaster_magnitudes[OF valid_rng_half well_formed_init_half, of 0]
  show ?thesis using valid_rng_half well_formed_init_half by blast
qed

section \<open>Priority selection\<close>

lemma python_max_snoc:
  "python_max key m (xs @ [y]) =
     (if key y > key (python_max key m xs) then y else python_max key m xs)"
  by (induction xs arbitrary: m) auto

lemma python_max_first_maximum:
  "\<exists>i < length (m # xs). python_max key m xs = (m # xs) ! i \<and>
     (\<forall>j < length (m # xs). key ((m # xs) ! j) \<le> key ((m # xs) ! i)) \<and>
     (\<forall>j < i. key ((m # xs) ! j) < key ((m # xs) ! i))"
proof (induction xs rule: rev_induct)
  case Nil
  then show ?case by simp
next
  case (snoc y xs)
  then obtain i where i: "i < length (m # xs)" "python_max key m xs = (m # xs) ! i"
    "\<forall>j < length (m # xs). key ((m # xs) ! j) \<le> key ((m # xs) ! i)"
    "\<forall>j < i. key ((m # xs) ! j) < key ((m # xs) ! i)" by blast
  let ?L = "m # xs @ [y]"
  have pre: "\<And>j. j < length (m # xs) \<Longrightarrow> ?L ! j = (m # xs) ! j"
    by (metis append_Cons nth_append)
  have last: "?L ! length (m # xs) = y"
    by (metis append_Cons nth_append_length)
  show ?case
  proof (cases "key y > key (python_max key m xs)")
    case True
    have "\<forall>j < length ?L. key (?L ! j) \<le> key y"
    proof (intro allI impI)
      fix j assume "j < length ?L"
      then consider "j < length (m # xs)" | "j = length (m # xs)" by fastforce
      then show "key (?L ! j) \<le> key y"
      proof cases
        case 1 then show ?thesis using i(2,3) True pre by (metis less_le_not_le order.trans linear)
      next
        case 2 then show ?thesis using last by simp
      qed
    qed
    moreover have "\<forall>j < length (m # xs). key (?L ! j) < key y"
      using i(2,3) True pre by (metis le_less_trans)
    ultimately show ?thesis
      using True last by (intro exI[of _ "length (m # xs)"]) (simp add: python_max_snoc)
  next
    case False
    have "\<forall>j < length ?L. key (?L ! j) \<le> key (?L ! i)"
    proof (intro allI impI)
      fix j assume "j < length ?L"
      then consider "j < length (m # xs)" | "j = length (m # xs)" by fastforce
      then show "key (?L ! j) \<le> key (?L ! i)"
      proof cases
        case 1 then show ?thesis using i(1,3) pre by metis
      next
        case 2 then show ?thesis using last False i(1,2) pre by (metis not_le_imp_less leI)
      qed
    qed
    moreover have "\<forall>j < i. key (?L ! j) < key (?L ! i)"
      using i(1,4) pre by (metis less_trans)
    moreover have "python_max key m (xs @ [y]) = ?L ! i"
      using False i(1,2) pre by (simp add: python_max_snoc)
    ultimately show ?thesis using i(1) by (intro exI[of _ i]) simp
  qed
qed

lemma priority_key_less:
  "priority_key a < priority_key b \<longleftrightarrow>
     severity_value (severity a) < severity_value (severity b) \<or>
     severity_value (severity a) = severity_value (severity b) \<and>
       (casualties a < casualties b \<or>
        casualties a = casualties b \<and> infrastructure_damage a < infrastructure_damage b)"
  by (auto simp: priority_key_def less_prod_def)

text \<open>
  C4. When at least one derived event carries a disaster, \<open>_prioritize_disaster\<close> returns
  one of those disasters, no other is lexicographically greater in (severity ordinal,
  casualties, infrastructure damage), and every disaster earlier in derivation order is
  strictly smaller: ties go to the first occurrence. The witness is the instance with
  severities LOW, HIGH, CRITICAL and casualties 5, 100, 10, where the CRITICAL disaster is
  selected.
\<close>

theorem prioritize_disaster_first_maximum:
  assumes "List.map_filter ev_disaster events \<noteq> []"
  shows "\<exists>i < length (List.map_filter ev_disaster events).
      prioritize_disaster events = Some (List.map_filter ev_disaster events ! i) \<and>
      (\<forall>j < length (List.map_filter ev_disaster events).
         \<not> lexicographically_less (List.map_filter ev_disaster events ! i)
             (List.map_filter ev_disaster events ! j)) \<and>
      (\<forall>j < i. lexicographically_less (List.map_filter ev_disaster events ! j)
           (List.map_filter ev_disaster events ! i))"
proof -
  obtain d ds where ds: "List.map_filter ev_disaster events = d # ds"
    using assms by (cases "List.map_filter ev_disaster events") auto
  have less: "\<And>a b. lexicographically_less a b \<longleftrightarrow> priority_key a < priority_key b"
    by (simp add: lexicographically_less_def priority_key_less)
  have "prioritize_disaster events = Some (python_max priority_key d ds)"
    by (simp add: prioritize_disaster_def ds)
  then show ?thesis
    using python_max_first_maximum[of d ds priority_key] unfolding ds less not_less by auto
qed

theorem prioritize_disaster_first_maximum_witness:
  "List.map_filter ev_disaster
     [detected (synthetic_disaster ''D0001'' LOW 5),
      detected (synthetic_disaster ''D0002'' HIGH 100),
      detected (synthetic_disaster ''D0003'' CRITICAL 10)] \<noteq> [] \<and>
   prioritize_disaster
     [detected (synthetic_disaster ''D0001'' LOW 5),
      detected (synthetic_disaster ''D0002'' HIGH 100),
      detected (synthetic_disaster ''D0003'' CRITICAL 10)]
     = Some (synthetic_disaster ''D0003'' CRITICAL 10) \<and>
   lexicographically_less (synthetic_disaster ''D0002'' HIGH 100)
     (synthetic_disaster ''D0003'' CRITICAL 10)"
proof -
  let ?events = "[detected (synthetic_disaster ''D0001'' LOW 5),
      detected (synthetic_disaster ''D0002'' HIGH 100),
      detected (synthetic_disaster ''D0003'' CRITICAL 10)]"
  have ds: "List.map_filter ev_disaster ?events =
      [synthetic_disaster ''D0001'' LOW 5, synthetic_disaster ''D0002'' HIGH 100,
       synthetic_disaster ''D0003'' CRITICAL 10]"
    by (simp add: List.map_filter_simps detected_def)
  have ne: "List.map_filter ev_disaster ?events \<noteq> []" unfolding ds by simp
  from prioritize_disaster_first_maximum[OF ne]
  obtain i where i0: "i < length (List.map_filter ev_disaster ?events)"
      "prioritize_disaster ?events = Some (List.map_filter ev_disaster ?events ! i)"
      "\<forall>j < length (List.map_filter ev_disaster ?events).
         \<not> lexicographically_less (List.map_filter ev_disaster ?events ! i)
             (List.map_filter ev_disaster ?events ! j)"
    by blast
  note i = i0[unfolded ds]
  have i3: "i < 3" using i(1) by simp
  have top: "\<not> lexicographically_less
      ([synthetic_disaster ''D0001'' LOW 5, synthetic_disaster ''D0002'' HIGH 100,
        synthetic_disaster ''D0003'' CRITICAL 10] ! i)
      (synthetic_disaster ''D0003'' CRITICAL 10)"
    using i(3) by (auto dest: spec[of _ 2])
  have l02: "lexicographically_less (synthetic_disaster ''D0001'' LOW 5)
      (synthetic_disaster ''D0003'' CRITICAL 10)"
    by (simp add: lexicographically_less_def synthetic_disaster_def)
  have l12: "lexicographically_less (synthetic_disaster ''D0002'' HIGH 100)
      (synthetic_disaster ''D0003'' CRITICAL 10)"
    by (simp add: lexicographically_less_def synthetic_disaster_def)
  have "i = 2"
  proof (rule ccontr)
    assume "i \<noteq> 2"
    then consider "i = 0" | "i = 1" using i3 by linarith
    then show False
    proof cases
      case 1 then show ?thesis using top l02 by simp
    next
      case 2 then show ?thesis using top l12 by simp
    qed
  qed
  then show ?thesis using i(2) ne l12 by simp
qed

section \<open>The reactive policy: transition history and cascade\<close>

lemma history_chain_snoc:
  "history_chain s (h @ [r]) t \<longleftrightarrow>
     (history_chain s h (from_state r) \<and> from_state r \<noteq> to_state r \<and> to_state r = t)"
  by (induction h arbitrary: s) auto

lemma history_chain_explicit:
  "history_chain s h t \<Longrightarrow>
     (\<forall>r \<in> set h. from_state r \<noteq> to_state r) \<and>
     (h = [] \<longrightarrow> s = t) \<and>
     (h \<noteq> [] \<longrightarrow> from_state (hd h) = s \<and> to_state (last h) = t) \<and>
     (\<forall>i. Suc i < length h \<longrightarrow> from_state (h ! Suc i) = to_state (h ! i))"
proof (induction h arbitrary: s)
  case Nil
  then show ?case by simp
next
  case (Cons r rs)
  from Cons.prems have c: "history_chain (to_state r) rs t" by simp
  note ih = Cons.IH[OF c]
  have adj: "\<forall>i. Suc i < length (r # rs) \<longrightarrow>
      from_state ((r # rs) ! Suc i) = to_state ((r # rs) ! i)"
  proof (intro allI impI)
    fix i assume i: "Suc i < length (r # rs)"
    show "from_state ((r # rs) ! Suc i) = to_state ((r # rs) ! i)"
    proof (cases i)
      case 0
      with i have "rs \<noteq> []" by auto
      with ih 0 show ?thesis by (simp add: hd_conv_nth)
    next
      case (Suc k)
      with i ih show ?thesis by simp
    qed
  qed
  from Cons.prems ih adj show ?case by auto
qed

lemma chained_init: "chained (GoalReactiveResponseAgent_init aid)"
  by (simp add: chained_def GoalReactiveResponseAgent_init_def)

lemma chained_log: "chained a \<Longrightarrow> chained (log now m a)"
  by (simp add: chained_def log_def)

lemma chained_switch_state: "chained a \<Longrightarrow> chained (switch_state now s why a)"
  by (auto simp: chained_def switch_state_def log_def Let_def history_chain_snoc)

lemma chained_derive_events: "chained a \<Longrightarrow> chained (snd (derive_events ps a))"
  by (simp add: chained_def derive_events_def split: prod.splits)

lemma chained_fold_log:
  "chained a \<Longrightarrow> chained (fold (\<lambda>event. log now (f event)) events a)"
  by (induction events arbitrary: a) (auto intro: chained_log)

lemma chained_react: "chained a \<Longrightarrow> chained (react now events a)"
  unfolding react_def Let_def
  by (auto intro!: chained_log chained_switch_state chained_fold_log split: option.splits)

lemma reachable_chained: "reachable a \<Longrightarrow> chained a"
  by (induction rule: reachable.induct)
     (auto intro: chained_init chained_log chained_switch_state chained_derive_events chained_react)

lemma log_fields:
  "state (log now m a) = state a" "transition_history (log now m a) = transition_history a"
  "last_handled_event_ids (log now m a) = last_handled_event_ids a"
  "agent_id (log now m a) = agent_id a"
  by (simp_all add: log_def)

lemma fold_log_fields:
  "state (fold (\<lambda>event. log now (f event)) events a) = state a \<and>
   transition_history (fold (\<lambda>event. log now (f event)) events a) = transition_history a"
  by (induction events arbitrary: a) (auto simp: log_fields)

lemma switch_state_same: "switch_state now (state a) why a = a"
  by (simp add: switch_state_def)

lemma switch_state_other:
  "state a \<noteq> s \<Longrightarrow>
     state (switch_state now s why a) = s \<and>
     transition_history (switch_state now s why a) =
       transition_history a @
         [\<lparr>from_state = state a, to_state = s, reason = why, time = now\<rparr>]"
  by (simp add: switch_state_def log_def Let_def)

lemma prioritize_disaster_None:
  "prioritize_disaster events = None \<longleftrightarrow> (\<forall>e \<in> set events. ev_disaster e = None)"
proof -
  have "List.map_filter ev_disaster events = [] \<longleftrightarrow> (\<forall>e \<in> set events. ev_disaster e = None)"
    by (induction events) (auto simp: List.map_filter_simps split: option.splits)
  then show ?thesis
    by (auto simp: prioritize_disaster_def split: list.splits)
qed

lemma react_no_events:
  "state a = MONITORING \<Longrightarrow>
     react now [] a = log now (Text ''Action: Continue periodic monitoring'') a"
  by (simp add: react_def)

lemma react_priority:
  assumes "state a = MONITORING" "events \<noteq> []" "prioritize_disaster events = Some d"
  shows "state (react now events a) = MONITORING \<and>
     transition_history (react now events a) =
       transition_history a @
         [\<lparr>from_state = MONITORING, to_state = ASSESSING,
           reason = ''Disaster-related event detected'', time = now\<rparr>,
          \<lparr>from_state = ASSESSING, to_state = DISPATCHING,
           reason = ''Assessment complete'', time = now\<rparr>,
          \<lparr>from_state = DISPATCHING, to_state = RECOVERY,
           reason = ''Initial dispatch actions completed'', time = now\<rparr>,
          \<lparr>from_state = RECOVERY, to_state = MONITORING,
           reason = (if severity_value (severity d) \<le> severity_value MODERATE
                     then ''Disaster impact under control''
                     else ''Return to monitor after recovery cycle''),
           time = now\<rparr>]"
  using assms
  by (simp add: react_def Let_def fold_log_fields log_fields switch_state_other)

lemma react_no_priority:
  assumes "state a = MONITORING" "events \<noteq> []" "prioritize_disaster events = None"
  shows "state (react now events a) = RECOVERY \<and>
     transition_history (react now events a) =
       transition_history a @
         [\<lparr>from_state = MONITORING, to_state = ASSESSING,
           reason = ''Disaster-related event detected'', time = now\<rparr>,
          \<lparr>from_state = ASSESSING, to_state = DISPATCHING,
           reason = ''Assessment complete'', time = now\<rparr>,
          \<lparr>from_state = DISPATCHING, to_state = RECOVERY,
           reason = ''Initial dispatch actions completed'', time = now\<rparr>]"
  using assms
  by (simp add: react_def Let_def fold_log_fields log_fields switch_state_other)

text \<open>
  C10. In every agent state that the class's methods produce, each recorded transition
  changes the state, the first record leaves MONITORING, each record starts where the
  previous one ended, and the last record ends in the current state (with no record the
  state is still MONITORING). A switch to the current state changes nothing: it is not
  recorded.
\<close>

theorem transition_history_chain:
  assumes "reachable a"
  shows "(\<forall>r \<in> set (transition_history a). from_state r \<noteq> to_state r) \<and>
     (transition_history a = [] \<longrightarrow> state a = MONITORING) \<and>
     (transition_history a \<noteq> [] \<longrightarrow>
        from_state (hd (transition_history a)) = MONITORING \<and>
        to_state (last (transition_history a)) = state a) \<and>
     (\<forall>i. Suc i < length (transition_history a) \<longrightarrow>
        from_state (transition_history a ! Suc i) = to_state (transition_history a ! i)) \<and>
     (\<forall>now why. switch_state now (state a) why a = a)"
proof -
  from assms have "history_chain MONITORING (transition_history a) (state a)"
    using reachable_chained by (simp add: chained_def)
  from history_chain_explicit[OF this] show ?thesis
    by (simp add: switch_state_same)
qed

theorem transition_history_chain_witness:
  "reachable (react 7 [detected (synthetic_disaster ''D0001'' HIGH 5)]
      (GoalReactiveResponseAgent_init ''RESPONSE-001'')) \<and>
   (\<exists>h. h = transition_history (react 7 [detected (synthetic_disaster ''D0001'' HIGH 5)]
            (GoalReactiveResponseAgent_init ''RESPONSE-001'')) \<and>
        length h = 4 \<and>
        (\<forall>r \<in> set h. from_state r \<noteq> to_state r) \<and>
        from_state (hd h) = MONITORING \<and>
        to_state (last h) = state (react 7 [detected (synthetic_disaster ''D0001'' HIGH 5)]
            (GoalReactiveResponseAgent_init ''RESPONSE-001'')) \<and>
        (\<forall>i. Suc i < length h \<longrightarrow> from_state (h ! Suc i) = to_state (h ! i)))"
proof -
  let ?a = "react 7 [detected (synthetic_disaster ''D0001'' HIGH 5)]
      (GoalReactiveResponseAgent_init ''RESPONSE-001'')"
  have r: "reachable ?a" by (intro reachable.react reachable.init)
  have p: "prioritize_disaster [detected (synthetic_disaster ''D0001'' HIGH 5)]
      = Some (synthetic_disaster ''D0001'' HIGH 5)"
    by (simp add: prioritize_disaster_def detected_def List.map_filter_simps)
  have "state (GoalReactiveResponseAgent_init ''RESPONSE-001'') = MONITORING"
    by (simp add: GoalReactiveResponseAgent_init_def)
  from react_priority[OF this _ p, of 7]
  have len: "length (transition_history ?a) = 4"
    by (simp add: GoalReactiveResponseAgent_init_def)
  then have ne: "transition_history ?a \<noteq> []" by auto
  from transition_history_chain[OF r] ne len r show ?thesis by simp
qed

text \<open>
  C2. A tick that starts in MONITORING with at least one event is to cascade through
  ASSESSING, DISPATCHING and RECOVERY and end in MONITORING. \<open>_react\<close> leaves ASSESSING and
  DISPATCHING unconditionally, but both of its transitions out of RECOVERY stand inside
  \<open>if priority_disaster:\<close>, with no \<open>else\<close>. So a tick whose events carry no disaster
  stops in RECOVERY: the percept of 43 degrees with no active disaster gives the single
  event \<open>TEMP_SPIKE\<close>, and the tick ends in RECOVERY. The next tick, with a newly detected
  HIGH disaster, starts in RECOVERY: it records the one transition RECOVERY to MONITORING
  and logs the event and the recovery lines only, with no assessment and no dispatch.
\<close>

theorem react_ends_in_recovery:
  "state (GoalReactiveResponseAgent_init ''RESPONSE-001'') = MONITORING \<and>
   map ev_type (fst (derive_events [hot_percept] (GoalReactiveResponseAgent_init ''RESPONSE-001'')))
     = [TEMP_SPIKE] \<and>
   state after_hot_tick = RECOVERY \<and>
   state (react 1 [detected (synthetic_disaster ''D0001'' HIGH 5)] after_hot_tick) = MONITORING \<and>
   map (\<lambda>r. (from_state r, to_state r))
     (drop 3 (transition_history
        (react 1 [detected (synthetic_disaster ''D0001'' HIGH 5)] after_hot_tick))) =
     [(RECOVERY, MONITORING)] \<and>
   map (\<lambda>entry. snd (snd entry))
     (drop 4 (trace (react 1 [detected (synthetic_disaster ''D0001'' HIGH 5)] after_hot_tick))) =
     [Event_line DISASTER_DETECTED ''Accra'' (Kind_and_severity FLOOD HIGH),
      Text ''Recovery: Continue containment and infrastructure stabilization'',
      Goal_alignment stabilize_infrastructure,
      State_change RECOVERY MONITORING ''Return to monitor after recovery cycle'']"
  by (simp add: after_hot_tick_def derive_events_def hot_percept_def
      GoalReactiveResponseAgent_init_def react_def Let_def prioritize_disaster_def
      List.map_filter_simps switch_state_def log_def detected_def synthetic_disaster_def)

text \<open>
  What \<open>_react\<close> does, case by case, on a tick that starts in MONITORING: with no event the
  state and the transition history stay as they are; with at least one event that carries a
  disaster it records MONITORING to ASSESSING, ASSESSING to DISPATCHING, DISPATCHING to
  RECOVERY and RECOVERY to MONITORING; with events of which none carries a disaster it
  records the first three of these only.
\<close>

lemma react_from_monitoring:
  assumes "state a = MONITORING"
  shows "(events = [] \<longrightarrow>
        state (react now events a) = MONITORING \<and>
        transition_history (react now events a) = transition_history a) \<and>
     (events \<noteq> [] \<and> (\<exists>e \<in> set events. ev_disaster e \<noteq> None) \<longrightarrow>
        state (react now events a) = MONITORING \<and>
        map (\<lambda>r. (from_state r, to_state r))
          (drop (length (transition_history a)) (transition_history (react now events a))) =
          [(MONITORING, ASSESSING), (ASSESSING, DISPATCHING), (DISPATCHING, RECOVERY),
           (RECOVERY, MONITORING)]) \<and>
     (events \<noteq> [] \<and> (\<forall>e \<in> set events. ev_disaster e = None) \<longrightarrow>
        state (react now events a) = RECOVERY \<and>
        map (\<lambda>r. (from_state r, to_state r))
          (drop (length (transition_history a)) (transition_history (react now events a))) =
          [(MONITORING, ASSESSING), (ASSESSING, DISPATCHING), (DISPATCHING, RECOVERY)])"
proof (intro conjI impI)
  assume "events = []"
  then show "state (react now events a) = MONITORING"
    and "transition_history (react now events a) = transition_history a"
    using assms by (simp_all add: react_no_events log_fields)
next
  assume h: "events \<noteq> [] \<and> (\<exists>e \<in> set events. ev_disaster e \<noteq> None)"
  then obtain d where "prioritize_disaster events = Some d"
    using prioritize_disaster_None[of events] by (cases "prioritize_disaster events") auto
  from react_priority[OF assms _ this, of now] h
  show "state (react now events a) = MONITORING"
    and "map (\<lambda>r. (from_state r, to_state r))
          (drop (length (transition_history a)) (transition_history (react now events a))) =
          [(MONITORING, ASSESSING), (ASSESSING, DISPATCHING), (DISPATCHING, RECOVERY),
           (RECOVERY, MONITORING)]"
    by simp_all
next
  assume h: "events \<noteq> [] \<and> (\<forall>e \<in> set events. ev_disaster e = None)"
  then have "prioritize_disaster events = None" by (simp add: prioritize_disaster_None)
  from react_no_priority[OF assms _ this, of now] h
  show "state (react now events a) = RECOVERY"
    and "map (\<lambda>r. (from_state r, to_state r))
          (drop (length (transition_history a)) (transition_history (react now events a))) =
          [(MONITORING, ASSESSING), (ASSESSING, DISPATCHING), (DISPATCHING, RECOVERY)]"
    by simp_all
qed

section \<open>The event deriver\<close>

lemma derive_disasters_blocks:
  "derive_disasters loc ds acc seen =
     (acc @ concat (disaster_blocks loc ds seen), seen \<union> event_id ` set ds)"
proof (induction ds arbitrary: acc seen)
  case Nil
  then show ?case by simp
next
  case (Cons d ds)
  show ?case
    by (simp add: Cons.IH disaster_block_def Let_def insert_absorb)
qed

lemma derive_percepts_events:
  "derive_percepts ps acc seen = (acc @ percepts_events ps seen, seen \<union> percept_ids ps)"
proof (induction ps arbitrary: acc seen)
  case Nil
  then show ?case by (simp add: percept_ids_def)
next
  case (Cons p ps)
  have ids: "percept_ids (p # ps) = event_id ` set (p_active_disasters p) \<union> percept_ids ps"
    by (auto simp: percept_ids_def)
  show ?case
    by (simp add: Cons.IH derive_disasters_blocks threshold_events_def Let_def ids Un_assoc)
qed

lemma derive_events_eq:
  "derive_events ps a =
     (percepts_events ps (last_handled_event_ids a),
      a\<lparr>last_handled_event_ids := last_handled_event_ids a \<union> percept_ids ps\<rparr>)"
  by (simp add: derive_events_def derive_percepts_events)

lemma detections_append: "detections i (xs @ ys) = detections i xs @ detections i ys"
  by (simp add: detections_def)

lemma detections_threshold: "detections i (threshold_events p) = []"
  by (simp add: detections_def threshold_events_def)

lemma length_detections_block:
  "length (detections i (disaster_block loc seen d)) =
     (if event_id d = i \<and> i \<notin> seen then 1 else 0)"
  by (simp add: detections_def disaster_block_def)

lemma length_detections_blocks:
  "length (detections i (concat (disaster_blocks loc ds seen))) =
     (if i \<in> event_id ` set ds \<and> i \<notin> seen then 1 else 0)"
proof (induction ds arbitrary: seen)
  case Nil
  then show ?case by (simp add: detections_def)
next
  case (Cons d ds)
  show ?case
    by (auto simp: detections_append length_detections_block Cons.IH)
qed

lemma length_detections_percepts:
  "length (detections i (percepts_events ps seen)) =
     (if i \<in> percept_ids ps \<and> i \<notin> seen then 1 else 0)"
proof (induction ps arbitrary: seen)
  case Nil
  then show ?case by (simp add: detections_def percept_ids_def)
next
  case (Cons p ps)
  have ids: "percept_ids (p # ps) = event_id ` set (p_active_disasters p) \<union> percept_ids ps"
    by (auto simp: percept_ids_def)
  show ?case
    by (auto simp: detections_append detections_threshold length_detections_blocks Cons.IH ids)
qed

lemma detected_block_unseen:
  "e \<in> set (disaster_block loc seen d) \<Longrightarrow> ev_type e = DISASTER_DETECTED \<Longrightarrow>
     ev_disaster e = Some d \<and> event_id d \<notin> seen"
  by (auto simp: disaster_block_def split: if_splits)

lemma detected_blocks_unseen:
  "e \<in> set (concat (disaster_blocks loc ds seen)) \<Longrightarrow> ev_type e = DISASTER_DETECTED \<Longrightarrow>
     \<exists>d \<in> set ds. ev_disaster e = Some d \<and> event_id d \<notin> seen"
proof (induction ds arbitrary: seen)
  case Nil
  then show ?case by simp
next
  case (Cons d ds)
  from Cons.prems(1) consider "e \<in> set (disaster_block loc seen d)"
    | "e \<in> set (concat (disaster_blocks loc ds (insert (event_id d) seen)))" by auto
  then show ?case
  proof cases
    case 1
    with detected_block_unseen[OF 1 Cons.prems(2)] show ?thesis by simp
  next
    case 2
    from Cons.IH[OF 2 Cons.prems(2)] show ?thesis by auto
  qed
qed

lemma detected_percepts_unseen:
  "e \<in> set (percepts_events ps seen) \<Longrightarrow> ev_type e = DISASTER_DETECTED \<Longrightarrow>
     \<exists>d. ev_disaster e = Some d \<and> event_id d \<in> percept_ids ps \<and> event_id d \<notin> seen"
proof (induction ps arbitrary: seen)
  case Nil
  then show ?case by simp
next
  case (Cons p ps)
  have ids: "percept_ids (p # ps) = event_id ` set (p_active_disasters p) \<union> percept_ids ps"
    by (auto simp: percept_ids_def)
  from Cons.prems(1) consider "e \<in> set (threshold_events p)"
    | "e \<in> set (concat (disaster_blocks (name (p_location p)) (p_active_disasters p) seen))"
    | "e \<in> set (percepts_events ps (seen \<union> event_id ` set (p_active_disasters p)))" by auto
  then show ?case
  proof cases
    case 1
    with Cons.prems(2) show ?thesis by (auto simp: threshold_events_def split: if_splits)
  next
    case 2
    from detected_blocks_unseen[OF 2 Cons.prems(2)] show ?thesis by (auto simp: ids)
  next
    case 3
    from Cons.IH[OF 3 Cons.prems(2)] show ?thesis by (auto simp: ids)
  qed
qed

lemma other_block_seen:
  "filter (\<lambda>e. ev_type e \<noteq> DISASTER_DETECTED) (disaster_block loc seen d) =
   filter (\<lambda>e. ev_type e \<noteq> DISASTER_DETECTED) (disaster_block loc seen' d)"
  by (simp add: disaster_block_def)

lemma other_blocks_seen:
  "filter (\<lambda>e. ev_type e \<noteq> DISASTER_DETECTED) (concat (disaster_blocks loc ds seen)) =
   filter (\<lambda>e. ev_type e \<noteq> DISASTER_DETECTED) (concat (disaster_blocks loc ds seen'))"
proof (induction ds arbitrary: seen seen')
  case Nil
  then show ?case by simp
next
  case (Cons d ds)
  show ?case
    using other_block_seen[of loc seen d seen']
      Cons.IH[of "insert (event_id d) seen" "insert (event_id d) seen'"]
    by simp
qed

lemma other_percepts_seen:
  "filter (\<lambda>e. ev_type e \<noteq> DISASTER_DETECTED) (percepts_events ps seen) =
   filter (\<lambda>e. ev_type e \<noteq> DISASTER_DETECTED) (percepts_events ps seen')"
proof (induction ps arbitrary: seen seen')
  case Nil
  then show ?case by simp
next
  case (Cons p ps)
  show ?case
    using other_blocks_seen[of "name (p_location p)" "p_active_disasters p" seen seen']
      Cons.IH[of "seen \<union> event_id ` set (p_active_disasters p)"
                 "seen' \<union> event_id ` set (p_active_disasters p)"]
    by simp
qed

lemma percepts_events_append:
  "percepts_events (ps @ qs) seen =
     percepts_events ps seen @ percepts_events qs (seen \<union> percept_ids ps)"
proof (induction ps arbitrary: seen)
  case Nil
  then show ?case by (simp add: percept_ids_def)
next
  case (Cons p ps)
  have ids: "percept_ids (p # ps) = event_id ` set (p_active_disasters p) \<union> percept_ids ps"
    by (auto simp: percept_ids_def)
  show ?case by (simp add: Cons.IH ids Un_assoc)
qed

lemma length_disaster_blocks: "length (disaster_blocks loc ds seen) = length ds"
  by (induction ds arbitrary: seen) auto

lemma nth_disaster_blocks:
  "i < length ds \<Longrightarrow> \<exists>seen'. disaster_blocks loc ds seen ! i = disaster_block loc seen' (ds ! i)"
proof (induction ds arbitrary: seen i)
  case Nil
  then show ?case by simp
next
  case (Cons d ds)
  show ?case
  proof (cases i)
    case 0
    then show ?thesis by auto
  next
    case (Suc k)
    with Cons.prems have "k < length ds" by simp
    from Cons.IH[OF this, of "insert (event_id d) seen"] Suc show ?thesis by simp
  qed
qed

lemma disaster_block_order:
  "subseq (map ev_type (disaster_block loc seen d))
     [DISASTER_DETECTED, SEVERITY_ESCALATION, RESOURCE_SHORTAGE] \<and>
   (\<forall>e \<in> set (disaster_block loc seen d). ev_location e = loc \<and> ev_disaster e = Some d)"
  by (simp add: disaster_block_def)

lemma threshold_events_order:
  "subseq (map ev_type (threshold_events p)) [TEMP_SPIKE, WATER_RISE] \<and>
   (\<forall>e \<in> set (threshold_events p). ev_location e = name (p_location p) \<and> ev_disaster e = None)"
  by (simp add: threshold_events_def)

text \<open>
  C5. Over two successive calls of \<open>_derive_events\<close> on the same percepts: the first call
  adds the identifiers of all the percepts' disasters to the seen-set and emits exactly one
  \<open>DISASTER_DETECTED\<close> event for each identifier that was not in the seen-set (none for
  one that was); the second call emits no \<open>DISASTER_DETECTED\<close> event, and its other events
  (the threshold events, \<open>SEVERITY_ESCALATION\<close> and \<open>RESOURCE_SHORTAGE\<close>) are those of
  the first call again. Nor does any later call, on any percepts, emit \<open>DISASTER_DETECTED\<close>
  for an identifier that is in the seen-set.
\<close>

theorem disaster_detected_once:
  assumes "derive_events ps a = (ev1, a1)" and "derive_events ps a1 = (ev2, a2)"
  shows "last_handled_event_ids a1 = last_handled_event_ids a \<union> percept_ids ps \<and>
     (\<forall>i. length (detections i ev1) =
        (if i \<in> percept_ids ps \<and> i \<notin> last_handled_event_ids a then 1 else 0)) \<and>
     filter (\<lambda>e. ev_type e = DISASTER_DETECTED) ev2 = [] \<and>
     filter (\<lambda>e. ev_type e \<noteq> DISASTER_DETECTED) ev2 =
       filter (\<lambda>e. ev_type e \<noteq> DISASTER_DETECTED) ev1 \<and>
     (\<forall>qs e. e \<in> set (fst (derive_events qs a1)) \<and> ev_type e = DISASTER_DETECTED \<longrightarrow>
        (\<exists>d. ev_disaster e = Some d \<and> event_id d \<notin> last_handled_event_ids a1))"
proof -
  from assms(1) have ev1: "ev1 = percepts_events ps (last_handled_event_ids a)"
    and a1: "last_handled_event_ids a1 = last_handled_event_ids a \<union> percept_ids ps"
    by (auto simp: derive_events_eq)
  from assms(2) have ev2: "ev2 = percepts_events ps (last_handled_event_ids a1)"
    by (auto simp: derive_events_eq)
  have once: "\<forall>i. length (detections i ev1) =
        (if i \<in> percept_ids ps \<and> i \<notin> last_handled_event_ids a then 1 else 0)"
    unfolding ev1 by (simp add: length_detections_percepts)
  have none: "filter (\<lambda>e. ev_type e = DISASTER_DETECTED) ev2 = []"
  proof (rule ccontr)
    assume "filter (\<lambda>e. ev_type e = DISASTER_DETECTED) ev2 \<noteq> []"
    then obtain e where e: "e \<in> set ev2" "ev_type e = DISASTER_DETECTED"
      by (auto simp: filter_empty_conv)
    from detected_percepts_unseen[OF e(1)[unfolded ev2] e(2)] a1 show False by auto
  qed
  have others: "filter (\<lambda>e. ev_type e \<noteq> DISASTER_DETECTED) ev2 =
       filter (\<lambda>e. ev_type e \<noteq> DISASTER_DETECTED) ev1"
    unfolding ev1 ev2 by (rule other_percepts_seen)
  have later: "\<forall>qs e. e \<in> set (fst (derive_events qs a1)) \<and> ev_type e = DISASTER_DETECTED \<longrightarrow>
        (\<exists>d. ev_disaster e = Some d \<and> event_id d \<notin> last_handled_event_ids a1)"
    using detected_percepts_unseen by (fastforce simp: derive_events_eq)
  from a1 once none others later show ?thesis by blast
qed

theorem disaster_detected_once_witness:
  "length (detections ''D0001''
      (fst (derive_events [accra_percept 30 2 [synthetic_disaster ''D0001'' CRITICAL 10]]
         (GoalReactiveResponseAgent_init ''RESPONSE-001'')))) = 1 \<and>
   map ev_type
      (fst (derive_events [accra_percept 30 2 [synthetic_disaster ''D0001'' CRITICAL 10]]
         (GoalReactiveResponseAgent_init ''RESPONSE-001''))) =
     [WATER_RISE, DISASTER_DETECTED, SEVERITY_ESCALATION] \<and>
   map ev_type
      (fst (derive_events [accra_percept 30 2 [synthetic_disaster ''D0001'' CRITICAL 10]]
         (snd (derive_events [accra_percept 30 2 [synthetic_disaster ''D0001'' CRITICAL 10]]
            (GoalReactiveResponseAgent_init ''RESPONSE-001''))))) =
     [WATER_RISE, SEVERITY_ESCALATION]"
proof -
  let ?ps = "[accra_percept 30 2 [synthetic_disaster ''D0001'' CRITICAL 10]]"
  let ?a = "GoalReactiveResponseAgent_init ''RESPONSE-001''"
  have ids: "percept_ids ?ps = {''D0001''}"
    by (simp add: percept_ids_def accra_percept_def synthetic_disaster_def)
  have seen: "last_handled_event_ids ?a = {}"
    by (simp add: GoalReactiveResponseAgent_init_def)
  have first: "map ev_type (fst (derive_events ?ps ?a)) =
      [WATER_RISE, DISASTER_DETECTED, SEVERITY_ESCALATION]"
    by (simp add: derive_events_def accra_percept_def synthetic_disaster_def
        GoalReactiveResponseAgent_init_def get_default_def)
  note t = disaster_detected_once[of ?ps ?a "fst (derive_events ?ps ?a)"
      "snd (derive_events ?ps ?a)"
      "fst (derive_events ?ps (snd (derive_events ?ps ?a)))"
      "snd (derive_events ?ps (snd (derive_events ?ps ?a)))", simplified]
  from t have one: "length (detections ''D0001'' (fst (derive_events ?ps ?a))) = 1"
    by (simp add: ids seen)
  from t have same: "filter (\<lambda>e. ev_type e \<noteq> DISASTER_DETECTED)
        (fst (derive_events ?ps (snd (derive_events ?ps ?a)))) =
      filter (\<lambda>e. ev_type e \<noteq> DISASTER_DETECTED) (fst (derive_events ?ps ?a))"
    and none: "filter (\<lambda>e. ev_type e = DISASTER_DETECTED)
        (fst (derive_events ?ps (snd (derive_events ?ps ?a)))) = []"
    by simp_all
  have "fst (derive_events ?ps (snd (derive_events ?ps ?a))) =
      filter (\<lambda>e. ev_type e \<noteq> DISASTER_DETECTED)
        (fst (derive_events ?ps (snd (derive_events ?ps ?a))))"
    using none by (simp add: filter_empty_conv filter_id_conv)
  then have "map ev_type (fst (derive_events ?ps (snd (derive_events ?ps ?a)))) =
      filter (\<lambda>t. t \<noteq> DISASTER_DETECTED) (map ev_type (fst (derive_events ?ps ?a)))"
    unfolding same by (simp add: filter_map comp_def)
  then show ?thesis using one first by simp
qed

text \<open>
  C3, as stated, fails: with two active disasters at one location, the first CRITICAL and
  the second LOW, the \<open>SEVERITY_ESCALATION\<close> event of the first precedes the
  \<open>DISASTER_DETECTED\<close> event of the second, so the events of the location are not in rule
  order.
\<close>

theorem derive_events_not_in_rule_order:
  "map ev_type
     (fst (derive_events
        [accra_percept 30 0
           [synthetic_disaster ''D0001'' CRITICAL 10, synthetic_disaster ''D0002'' LOW 5]]
        (GoalReactiveResponseAgent_init ''RESPONSE-001''))) =
     [DISASTER_DETECTED, SEVERITY_ESCALATION, DISASTER_DETECTED] \<and>
   \<not> sorted (map (rule_rank \<circ> ev_type)
     (fst (derive_events
        [accra_percept 30 0
           [synthetic_disaster ''D0001'' CRITICAL 10, synthetic_disaster ''D0002'' LOW 5]]
        (GoalReactiveResponseAgent_init ''RESPONSE-001''))))"
  by (simp add: derive_events_def accra_percept_def synthetic_disaster_def
      GoalReactiveResponseAgent_init_def get_default_def)

text \<open>
  C3, amended. The events of a list of percepts are the events of its first part followed by
  the events of the rest (derived with the seen-set the first part leaves): they are grouped
  percept by percept, in the order given. The events of one percept are the threshold events
  in the order \<open>TEMP_SPIKE\<close>, \<open>WATER_RISE\<close>, followed by one block per active disaster in
  the order of the percept's list; the block of a disaster holds its events only, in the
  order \<open>DISASTER_DETECTED\<close>, \<open>SEVERITY_ESCALATION\<close>, \<open>RESOURCE_SHORTAGE\<close>.
\<close>

theorem derive_events_order:
  "fst (derive_events (ps @ qs) a) =
     fst (derive_events ps a) @ fst (derive_events qs (snd (derive_events ps a))) \<and>
   (\<exists>th blocks.
      fst (derive_events [p] a) = th @ concat blocks \<and>
      subseq (map ev_type th) [TEMP_SPIKE, WATER_RISE] \<and>
      (\<forall>e \<in> set th. ev_location e = name (p_location p) \<and> ev_disaster e = None) \<and>
      length blocks = length (p_active_disasters p) \<and>
      (\<forall>i < length blocks.
         subseq (map ev_type (blocks ! i))
           [DISASTER_DETECTED, SEVERITY_ESCALATION, RESOURCE_SHORTAGE] \<and>
         (\<forall>e \<in> set (blocks ! i).
            ev_location e = name (p_location p) \<and>
            ev_disaster e = Some (p_active_disasters p ! i))))"
proof (rule conjI)
  show "fst (derive_events (ps @ qs) a) =
     fst (derive_events ps a) @ fst (derive_events qs (snd (derive_events ps a)))"
    by (simp add: derive_events_eq percepts_events_append)
next
  let ?th = "threshold_events p"
  let ?blocks = "disaster_blocks (name (p_location p)) (p_active_disasters p)
      (last_handled_event_ids a)"
  have eq: "fst (derive_events [p] a) = ?th @ concat ?blocks"
    by (simp add: derive_events_eq)
  have len: "length ?blocks = length (p_active_disasters p)"
    by (rule length_disaster_blocks)
  have blocks: "\<forall>i < length ?blocks.
         subseq (map ev_type (?blocks ! i))
           [DISASTER_DETECTED, SEVERITY_ESCALATION, RESOURCE_SHORTAGE] \<and>
         (\<forall>e \<in> set (?blocks ! i).
            ev_location e = name (p_location p) \<and>
            ev_disaster e = Some (p_active_disasters p ! i))"
  proof (intro allI impI)
    fix i assume "i < length ?blocks"
    then have i: "i < length (p_active_disasters p)" by (simp add: len)
    from nth_disaster_blocks[OF i] obtain seen' where
      "?blocks ! i = disaster_block (name (p_location p)) seen' (p_active_disasters p ! i)"
      by blast
    then show "subseq (map ev_type (?blocks ! i))
           [DISASTER_DETECTED, SEVERITY_ESCALATION, RESOURCE_SHORTAGE] \<and>
         (\<forall>e \<in> set (?blocks ! i).
            ev_location e = name (p_location p) \<and>
            ev_disaster e = Some (p_active_disasters p ! i))"
      using disaster_block_order by simp
  qed
  from eq len blocks threshold_events_order[of p]
  show "\<exists>th blocks.
      fst (derive_events [p] a) = th @ concat blocks \<and>
      subseq (map ev_type th) [TEMP_SPIKE, WATER_RISE] \<and>
      (\<forall>e \<in> set th. ev_location e = name (p_location p) \<and> ev_disaster e = None) \<and>
      length blocks = length (p_active_disasters p) \<and>
      (\<forall>i < length blocks.
         subseq (map ev_type (blocks ! i))
           [DISASTER_DETECTED, SEVERITY_ESCALATION, RESOURCE_SHORTAGE] \<and>
         (\<forall>e \<in> set (blocks ! i).
            ev_location e = name (p_location p) \<and>
            ev_disaster e = Some (p_active_disasters p ! i)))"
    by blast
qed

theorem derive_events_order_witness:
  "fst (derive_events
      ([accra_percept 30 0
          [synthetic_disaster ''D0001'' CRITICAL 10, synthetic_disaster ''D0002'' LOW 5]] @
       [accra_percept 43 0 []])
      (GoalReactiveResponseAgent_init ''RESPONSE-001'')) =
   fst (derive_events
      [accra_percept 30 0
          [synthetic_disaster ''D0001'' CRITICAL 10, synthetic_disaster ''D0002'' LOW 5]]
      (GoalReactiveResponseAgent_init ''RESPONSE-001'')) @
   fst (derive_events [accra_percept 43 0 []]
      (snd (derive_events
         [accra_percept 30 0
            [synthetic_disaster ''D0001'' CRITICAL 10, synthetic_disaster ''D0002'' LOW 5]]
         (GoalReactiveResponseAgent_init ''RESPONSE-001'')))) \<and>
   (\<exists>th blocks.
      fst (derive_events
        [accra_percept 30 0
           [synthetic_disaster ''D0001'' CRITICAL 10, synthetic_disaster ''D0002'' LOW 5]]
        (GoalReactiveResponseAgent_init ''RESPONSE-001'')) = th @ concat blocks \<and>
      length blocks = 2 \<and>
      (\<forall>i < length blocks.
         subseq (map ev_type (blocks ! i))
           [DISASTER_DETECTED, SEVERITY_ESCALATION, RESOURCE_SHORTAGE]))"
proof -
  let ?p = "accra_percept 30 0
      [synthetic_disaster ''D0001'' CRITICAL 10, synthetic_disaster ''D0002'' LOW 5]"
  let ?a = "GoalReactiveResponseAgent_init ''RESPONSE-001''"
  have two: "length (p_active_disasters ?p) = 2" by (simp add: accra_percept_def)
  from derive_events_order[of "[?p]" "[accra_percept 43 0 []]" ?a ?p]
  obtain th blocks where
    app: "fst (derive_events ([?p] @ [accra_percept 43 0 []]) ?a) =
       fst (derive_events [?p] ?a) @
       fst (derive_events [accra_percept 43 0 []] (snd (derive_events [?p] ?a)))"
    and eq: "fst (derive_events [?p] ?a) = th @ concat blocks"
    and len: "length blocks = length (p_active_disasters ?p)"
    and ord: "\<forall>i < length blocks.
         subseq (map ev_type (blocks ! i))
           [DISASTER_DETECTED, SEVERITY_ESCALATION, RESOURCE_SHORTAGE]"
    by blast
  from len two have "length blocks = 2" by simp
  with app eq ord show ?thesis by blast
qed

section \<open>Sensing\<close>

text \<open>
  C7. For a registered location of a well-formed environment, \<open>sense\<close> succeeds and leaves
  the environment as it was: the condition store, the disaster catalog and the event counter
  are unchanged. Its percept carries the time of the call, the location, the seven values
  the condition store holds for the location and the active disasters at that location, in
  catalog order. A second call, on the environment the first call left, again leaves the
  environment as it was, and its percept is the first one with the time of the second call:
  the two percepts differ in the timestamp only.
\<close>

theorem sense_twice:
  assumes "well_formed env" and "loc \<in> set (locations env)"
  shows "\<exists>cond p1 env1 p2 env2.
      map_of (current_conditions env) (name loc) = Some cond \<and>
      sense env loc t1 = Inr (p1, env1) \<and>
      sense env1 loc t2 = Inr (p2, env2) \<and>
      env1 = env \<and> env2 = env \<and>
      current_conditions env2 = current_conditions env \<and>
      active_disasters env2 = active_disasters env \<and>
      event_counter env2 = event_counter env \<and>
      p1 = \<lparr>p_timestamp = t1, p_location = loc,
            p_temperature = temperature cond, p_humidity = humidity cond,
            p_wind_speed = wind_speed cond, p_air_quality = air_quality cond,
            p_seismic_activity = seismic_activity cond, p_water_level = water_level cond,
            p_smoke_detected = smoke_detected cond,
            p_active_disasters =
              filter (\<lambda>d. name (location d) = name loc) (active_disasters env)\<rparr> \<and>
      p2 = p1\<lparr>p_timestamp := t2\<rparr>"
proof -
  from assms have "name loc \<in> fst ` set (current_conditions env)"
    by (simp add: well_formed_def)
  then obtain cond where m: "map_of (current_conditions env) (name loc) = Some cond"
    by (metis map_of_eq_None_iff not_Some_eq)
  then have c: "lookup (current_conditions env) (name loc) = Inr cond"
    by (simp add: lookup_def)
  define p where "p = (\<lambda>t. \<lparr>p_timestamp = t, p_location = loc,
            p_temperature = temperature cond, p_humidity = humidity cond,
            p_wind_speed = wind_speed cond, p_air_quality = air_quality cond,
            p_seismic_activity = seismic_activity cond, p_water_level = water_level cond,
            p_smoke_detected = smoke_detected cond,
            p_active_disasters =
              filter (\<lambda>d. name (location d) = name loc) (active_disasters env)\<rparr>)"
  have s: "sense env loc t = Inr (p t, env)" for t
    by (simp add: sense_def and_then_def c p_def)
  have u: "p t2 = (p t1)\<lparr>p_timestamp := t2\<rparr>" by (simp add: p_def)
  have e: "p t1 = \<lparr>p_timestamp = t1, p_location = loc,
            p_temperature = temperature cond, p_humidity = humidity cond,
            p_wind_speed = wind_speed cond, p_air_quality = air_quality cond,
            p_seismic_activity = seismic_activity cond, p_water_level = water_level cond,
            p_smoke_detected = smoke_detected cond,
            p_active_disasters =
              filter (\<lambda>d. name (location d) = name loc) (active_disasters env)\<rparr>"
    by (simp add: p_def)
  show ?thesis
    apply (rule exI[of _ cond], rule exI[of _ "p t1"], rule exI[of _ env],
        rule exI[of _ "p t2"], rule exI[of _ env])
    apply (intro conjI)
             apply (rule m)
            apply (rule s)
           apply (rule s)
          apply (rule refl)
         apply (rule refl)
        apply (rule refl)
       apply (rule refl)
      apply (rule refl)
     apply (rule e)
    apply (rule u)
    done
qed


theorem sense_twice_witness:
  "well_formed flood_scene \<and>
   \<lparr>latitude = 5.6037, longitude = -0.1870, name = ''Accra''\<rparr> \<in> set (locations flood_scene) \<and>
   (\<exists>p1 env1 p2 env2.
      sense flood_scene \<lparr>latitude = 5.6037, longitude = -0.1870, name = ''Accra''\<rparr> 1
        = Inr (p1, env1) \<and>
      sense env1 \<lparr>latitude = 5.6037, longitude = -0.1870, name = ''Accra''\<rparr> 2
        = Inr (p2, env2) \<and>
      env2 = flood_scene \<and>
      p_water_level p1 = 3 \<and> p_humidity p1 = 95 \<and>
      p_active_disasters p1 = [synthetic_disaster ''D0001'' HIGH 5] \<and>
      p2 = p1\<lparr>p_timestamp := 2\<rparr>)"
proof -
  define loc where "loc = \<lparr>latitude = 5.6037, longitude = -0.1870, name = ''Accra''\<rparr>"
  have wf: "well_formed flood_scene"
    by (simp add: well_formed_def flood_scene_def initialize_locations_def
        synthetic_disaster_def)
  have l: "loc \<in> set (locations flood_scene)"
    by (simp add: flood_scene_def initialize_locations_def loc_def)
  have before: "map_of (current_conditions flood_scene) (name loc) =
      Some (calm\<lparr>water_level := 3, humidity := 95\<rparr>)"
    by (simp add: flood_scene_def loc_def)
  have local: "filter (\<lambda>d. name (location d) = name loc) (active_disasters flood_scene) =
      [synthetic_disaster ''D0001'' HIGH 5]"
    by (simp add: flood_scene_def synthetic_disaster_def loc_def)
  from sense_twice[OF wf l, of 1 2]
  obtain cond p1 env1 p2 env2 where
    c: "map_of (current_conditions flood_scene) (name loc) = Some cond"
    and s1: "sense flood_scene loc 1 = Inr (p1, env1)"
    and s2: "sense env1 loc 2 = Inr (p2, env2)"
    and e: "env2 = flood_scene"
    and p1: "p1 = \<lparr>p_timestamp = 1, p_location = loc,
            p_temperature = temperature cond, p_humidity = humidity cond,
            p_wind_speed = wind_speed cond, p_air_quality = air_quality cond,
            p_seismic_activity = seismic_activity cond, p_water_level = water_level cond,
            p_smoke_detected = smoke_detected cond,
            p_active_disasters =
              filter (\<lambda>d. name (location d) = name loc) (active_disasters flood_scene)\<rparr>"
    and p2: "p2 = p1\<lparr>p_timestamp := 2\<rparr>"
    by (elim exE conjE)
  from c before have cond: "cond = calm\<lparr>water_level := 3, humidity := 95\<rparr>" by simp
  have v1: "p_water_level p1 = 3" unfolding p1 by (simp add: cond)
  have v2: "p_humidity p1 = 95" unfolding p1 by (simp add: cond)
  have v3: "p_active_disasters p1 = [synthetic_disaster ''D0001'' HIGH 5]"
    unfolding p1 local by simp
  have "\<exists>p1 env1 p2 env2.
      sense flood_scene loc 1 = Inr (p1, env1) \<and>
      sense env1 loc 2 = Inr (p2, env2) \<and>
      env2 = flood_scene \<and>
      p_water_level p1 = 3 \<and> p_humidity p1 = 95 \<and>
      p_active_disasters p1 = [synthetic_disaster ''D0001'' HIGH 5] \<and>
      p2 = p1\<lparr>p_timestamp := 2\<rparr>"
    apply (rule exI[of _ p1], rule exI[of _ env1], rule exI[of _ p2], rule exI[of _ env2])
    apply (intro conjI)
          apply (rule s1)
         apply (rule s2)
        apply (rule e)
       apply (rule v1)
      apply (rule v2)
     apply (rule v3)
    apply (rule p2)
    done
  with wf l show ?thesis unfolding loc_def by (intro conjI)
qed

section \<open>The tick: drift, spawn and resolution\<close>

lemma random_draws_Cons [simp]: "random (draws (x # xs) d) = (x, draws xs d)"
  by (auto simp: random_def draws_def)

lemma random_draws_Nil [simp]: "random (draws [] d) = (d, draws [] d)"
  by (auto simp: random_def draws_def)

lemma valid_rng_draws:
  "(\<forall>x \<in> set xs. 0 \<le> x \<and> x < 1) \<Longrightarrow> 0 \<le> d \<Longrightarrow> d < 1 \<Longrightarrow> valid_rng (draws xs d)"
  by (auto simp: valid_rng_def draws_def)

lemma documented_widened: "documented_ranges c \<Longrightarrow> widened_ranges c"
  by (simp add: documented_ranges_def widened_ranges_def)

lemma reset_of_refl: "reset_of c c"
  by (simp add: reset_of_def)

lemma reset_of_trans: "reset_of a b \<Longrightarrow> reset_of b c \<Longrightarrow> reset_of a c"
  by (auto simp: reset_of_def)

lemma reset_of_reset_condition: "reset_of c (reset_condition t c)"
  by (cases t) (simp_all add: reset_of_def)

lemma reset_of_documented: "reset_of c c' \<Longrightarrow> documented_ranges c \<Longrightarrow> documented_ranges c'"
  by (auto simp: reset_of_def documented_ranges_def)

lemma reset_of_widened: "reset_of c c' \<Longrightarrow> widened_ranges c \<Longrightarrow> widened_ranges c'"
  by (auto simp: reset_of_def widened_ranges_def)

lemma drift_ranges:
  assumes "valid_rng g" "drift c g = (c', g')"
  shows "valid_rng g' \<and> 20 \<le> temperature c' \<and> temperature c' \<le> 45 \<and>
      30 \<le> humidity c' \<and> humidity c' \<le> 100 \<and>
      0 \<le> air_quality c' \<and> air_quality c' \<le> 500 \<and> 0 \<le> wind_speed c' \<and>
      water_level c' = water_level c \<and> smoke_detected c' = smoke_detected c \<and>
      seismic_activity c' = seismic_activity c"
proof -
  obtain dt g1 where a: "uniform (-2) 2 g = (dt, g1)" by (cases "uniform (-2) 2 g")
  obtain dh g2 where b: "uniform (-5) 5 g1 = (dh, g2)" by (cases "uniform (-5) 5 g1")
  obtain dw g3 where c: "uniform (-5) 5 g2 = (dw, g3)" by (cases "uniform (-5) 5 g2")
  obtain da g4 where d: "uniform (-10) 10 g3 = (da, g4)" by (cases "uniform (-10) 10 g3")
  have v: "valid_rng g4"
    using uniform_rng[OF uniform_rng[OF uniform_rng[OF uniform_rng[OF assms(1) a] b] c] d] .
  have "c' = c\<lparr>temperature := max 20 (min 45 (temperature c + dt)),
               humidity := max 30 (min 100 (humidity c + dh)),
               wind_speed := max 0 (wind_speed c + dw),
               air_quality := max 0 (min 500 (air_quality c + da))\<rparr>" and "g' = g4"
    using assms(2) by (simp_all only: drift_def a b c d prod.case prod.inject)
  then show ?thesis using v by simp
qed

lemma drift_conditions_spec:
  assumes "valid_rng g" "drift_conditions conds g = (conds', g')"
  shows "valid_rng g' \<and> map fst conds' = map fst conds \<and>
     (\<forall>n c. map_of conds n = Some c \<longrightarrow>
        (\<exists>c'. map_of conds' n = Some c' \<and>
           20 \<le> temperature c' \<and> temperature c' \<le> 45 \<and>
           30 \<le> humidity c' \<and> humidity c' \<le> 100 \<and>
           0 \<le> air_quality c' \<and> air_quality c' \<le> 500 \<and> 0 \<le> wind_speed c' \<and>
           water_level c' = water_level c))"
  using assms
proof (induction conds arbitrary: g conds' g')
  case Nil
  then show ?case by simp
next
  case (Cons entry rest)
  obtain k c where entry: "entry = (k, c)" by (cases entry)
  obtain c1 g1 where d: "drift c g = (c1, g1)" by (cases "drift c g")
  obtain rest' g2 where r: "drift_conditions rest g1 = (rest', g2)"
    by (cases "drift_conditions rest g1")
  from Cons.prems(2) have res: "conds' = (k, c1) # rest'" "g' = g2"
    by (simp_all add: entry d r)
  note dr = drift_ranges[OF Cons.prems(1) d]
  then have v1: "valid_rng g1" by simp
  note ih = Cons.IH[OF v1 r]
  show ?case
    using dr ih by (auto simp: res entry)
qed

lemma disaster_effects_ranges:
  assumes "valid_rng g" "disaster_effects t c g = (c', g')" "documented_ranges c"
  shows "widened_ranges c'"
proof (cases t)
  case FLOOD
  obtain w g1 where u: "uniform 1 5 g = (w, g1)" by (cases "uniform 1 5 g")
  from uniform_range[OF assms(1) _ u] have "1 \<le> w" by simp
  with assms(2,3) FLOOD u show ?thesis
    by (auto simp: documented_ranges_def widened_ranges_def)
next
  case EARTHQUAKE
  with assms(2,3) show ?thesis
    by (auto simp: documented_ranges_def widened_ranges_def split: prod.splits)
next
  case FIRE
  obtain x g1 where u: "uniform 10 30 g = (x, g1)" by (cases "uniform 10 30 g")
  obtain y g2 where v: "uniform 100 300 g1 = (y, g2)" by (cases "uniform 100 300 g1")
  from uniform_range[OF assms(1) _ u] have x: "10 \<le> x" "x \<le> 30" "valid_rng g1" by simp_all
  from uniform_range[OF x(3) _ v] have y: "100 \<le> y" "y \<le> 300" by simp_all
  from assms(2,3) FIRE u v x y show ?thesis
    by (auto simp: documented_ranges_def widened_ranges_def)
next
  case DROUGHT
  obtain x g1 where u: "uniform 5 15 g = (x, g1)" by (cases "uniform 5 15 g")
  from uniform_range[OF assms(1) _ u] have x: "5 \<le> x" "x \<le> 15" by simp_all
  from assms(2,3) DROUGHT u x show ?thesis
    by (auto simp: documented_ranges_def widened_ranges_def)
next
  case STORM
  obtain w g1 where u: "uniform 50 150 g = (w, g1)" by (cases "uniform 50 150 g")
  from uniform_range[OF assms(1) _ u] have "50 \<le> w" by simp
  with assms(2,3) STORM u show ?thesis
    by (auto simp: documented_ranges_def widened_ranges_def)
qed

lemma lookup_Inr: "lookup d k = Inr v \<longleftrightarrow> map_of d k = Some v"
  by (simp add: lookup_def split: option.splits)

lemma generate_disaster_spec:
  assumes "valid_rng g" and "well_formed env"
  shows "\<exists>event env' g' loc cond cond' dtype g3 g4.
      generate_disaster now env g = Inr (event, env', g') \<and> valid_rng g' \<and>
      loc \<in> set (locations env) \<and> location event = loc \<and>
      map_of (current_conditions env) (name loc) = Some cond \<and>
      valid_rng g3 \<and> disaster_effects dtype cond g3 = (cond', g4) \<and>
      env' = env\<lparr>event_counter := event_counter env + 1,
                 current_conditions := AList.update (name loc) cond' (current_conditions env),
                 active_disasters := active_disasters env @ [event]\<rparr>"
proof -
  obtain dtype g1 where c1: "choice list_DisasterType g = Inr (dtype, g1)"
    using choice_ok[of list_DisasterType g] by (auto simp: list_DisasterType_def)
  from choice_range[OF assms(1) c1] have v1: "valid_rng g1" by simp
  obtain loc g2 where c2: "choice (locations env) g1 = Inr (loc, g2)"
    using choice_ok[of "locations env" g1] assms(2) by (auto simp: well_formed_def)
  from choice_range[OF v1 c2] have v2: "valid_rng g2" and loc: "loc \<in> set (locations env)"
    by simp_all
  obtain sev g3 where c3: "choice list_Severity g2 = Inr (sev, g3)"
    using choice_ok[of list_Severity g2] by (auto simp: list_Severity_def)
  from choice_range[OF v2 c3] have v3: "valid_rng g3" by simp
  from loc assms(2) have "name loc \<in> fst ` set (current_conditions env)"
    by (simp add: well_formed_def)
  then obtain cond where c4: "lookup (current_conditions env) (name loc) = Inr cond"
    using lookup_ok by blast
  obtain cond' g4 where c5: "disaster_effects dtype cond g3 = (cond', g4)"
    by (cases "disaster_effects dtype cond g3")
  from disaster_effects_rng[OF v3 c5] have v4: "valid_rng g4" .
  from create_event_ok[OF v4, of now "event_counter env + 1" dtype loc sev]
  obtain event g5 where
    c6: "create_event now (event_counter env + 1) dtype loc sev g4 = Inr (event, g5)"
    and v5: "valid_rng g5" and l: "location event = loc"
    by blast
  let ?env' = "env\<lparr>event_counter := event_counter env + 1,
                  current_conditions := AList.update (name loc) cond' (current_conditions env),
                  active_disasters := active_disasters env @ [event]\<rparr>"
  have run: "generate_disaster now env g = Inr (event, ?env', g5)"
    by (simp only: generate_disaster_def Let_def and_then_def c1 c2 c3 c4 c5 c6 prod.case sum.case)
  from c4 have m: "map_of (current_conditions env) (name loc) = Some cond"
    by (simp add: lookup_Inr)
  from run v5 loc l m v3 c5 show ?thesis by blast
qed

lemma reset_done_reset_condition: "reset_done t (reset_condition t c)"
  by (cases t) (simp_all add: reset_done_def)

lemma reset_done_kept: "reset_done t c \<Longrightarrow> reset_of c c' \<Longrightarrow> reset_done t c'"
  by (auto simp: reset_done_def reset_of_def)

lemma reset_condition_other:
  "t = DROUGHT \<or> t = STORM \<Longrightarrow> reset_condition t c = c"
  by auto

lemma keys_update_present:
  "k \<in> fst ` set al \<Longrightarrow> map fst (AList.update k v al) = map fst al"
  by (simp add: update_keys)

lemma resolve_disasters_spec:
  assumes "\<forall>d \<in> set ds. name (location d) \<in> fst ` set conds"
  shows "\<exists>conds'.
      resolve_disasters ds rem conds g =
        Inr (rem @ nths ds {i. g i < 0.20}, conds', (\<lambda>n. g (n + length ds))) \<and>
      map fst conds' = map fst conds \<and>
      (\<forall>n c. map_of conds n = Some c \<longrightarrow>
         (\<exists>c'. map_of conds' n = Some c' \<and> reset_of c c' \<and>
            ((\<forall>i < length ds. g i < 0.20 \<and> name (location (ds ! i)) = n \<longrightarrow>
                disaster_type (ds ! i) = DROUGHT \<or> disaster_type (ds ! i) = STORM)
             \<longrightarrow> c' = c))) \<and>
      (\<forall>i < length ds. g i < 0.20 \<longrightarrow>
         (\<exists>c'. map_of conds' (name (location (ds ! i))) = Some c' \<and>
               reset_done (disaster_type (ds ! i)) c'))"
  using assms
proof (induction ds arbitrary: rem conds g)
  case Nil
  then show ?case by (simp add: reset_of_refl)
next
  case (Cons d rest)
  let ?g1 = "\<lambda>n. g (Suc n)"
  let ?k = "name (location d)"
  have rnd: "random g = (g 0, ?g1)" by (simp add: random_def)
  have shift: "(\<lambda>n. ?g1 (n + length rest)) = (\<lambda>n. g (n + length (d # rest)))" by simp
  show ?case
  proof (cases "g 0 < 0.20")
    case True
    from Cons.prems have "?k \<in> fst ` set conds" by simp
    then obtain cond where cond: "map_of conds ?k = Some cond"
      by (metis map_of_eq_None_iff not_Some_eq)
    let ?c1 = "reset_condition (disaster_type d) cond"
    let ?conds1 = "AList.update ?k ?c1 conds"
    have keys1: "map fst ?conds1 = map fst conds"
      using \<open>?k \<in> fst ` set conds\<close> by (rule keys_update_present)
    then have "fst ` set ?conds1 = fst ` set conds" by (metis list.set_map)
    with Cons.prems have pre: "\<forall>d \<in> set rest. name (location d) \<in> fst ` set ?conds1" by simp
    from Cons.IH[OF pre, of "rem @ [d]" ?g1]
    obtain conds' where
      run: "resolve_disasters rest (rem @ [d]) ?conds1 ?g1 =
        Inr ((rem @ [d]) @ nths rest {i. ?g1 i < 0.20}, conds', (\<lambda>n. ?g1 (n + length rest)))"
      and keys: "map fst conds' = map fst ?conds1"
      and rel: "\<forall>n c. map_of ?conds1 n = Some c \<longrightarrow>
         (\<exists>c'. map_of conds' n = Some c' \<and> reset_of c c' \<and>
            ((\<forall>i < length rest. ?g1 i < 0.20 \<and> name (location (rest ! i)) = n \<longrightarrow>
                disaster_type (rest ! i) = DROUGHT \<or> disaster_type (rest ! i) = STORM)
             \<longrightarrow> c' = c))"
      and fin: "\<forall>i < length rest. ?g1 i < 0.20 \<longrightarrow>
         (\<exists>c'. map_of conds' (name (location (rest ! i))) = Some c' \<and>
               reset_done (disaster_type (rest ! i)) c')"
      by blast
    have nths: "rem @ nths (d # rest) {i. g i < 0.20} =
        (rem @ [d]) @ nths rest {i. ?g1 i < 0.20}"
      using True by (simp add: nths_Cons)
    have eq: "resolve_disasters (d # rest) rem conds g =
        Inr (rem @ nths (d # rest) {i. g i < 0.20}, conds', (\<lambda>n. g (n + length (d # rest))))"
      unfolding nths shift[symmetric]
      using True cond run by (simp add: rnd and_then_def lookup_def)
    have m1: "\<And>n. map_of ?conds1 n = (if n = ?k then Some ?c1 else map_of conds n)"
      by (simp add: update_conv')
    have rel': "\<forall>n c. map_of conds n = Some c \<longrightarrow>
         (\<exists>c'. map_of conds' n = Some c' \<and> reset_of c c' \<and>
            ((\<forall>i < length (d # rest). g i < 0.20 \<and> name (location ((d # rest) ! i)) = n \<longrightarrow>
                disaster_type ((d # rest) ! i) = DROUGHT \<or> disaster_type ((d # rest) ! i) = STORM)
             \<longrightarrow> c' = c))"
    proof (intro allI impI)
      fix n c assume c: "map_of conds n = Some c"
      show "\<exists>c'. map_of conds' n = Some c' \<and> reset_of c c' \<and>
            ((\<forall>i < length (d # rest). g i < 0.20 \<and> name (location ((d # rest) ! i)) = n \<longrightarrow>
                disaster_type ((d # rest) ! i) = DROUGHT \<or> disaster_type ((d # rest) ! i) = STORM)
             \<longrightarrow> c' = c)"
      proof (cases "n = ?k")
        case k: True
        with c cond have cc: "c = cond" by simp
        from m1[of n] k have "map_of ?conds1 n = Some ?c1" by simp
        with rel obtain c' where c': "map_of conds' n = Some c'" "reset_of ?c1 c'"
          "(\<forall>i < length rest. ?g1 i < 0.20 \<and> name (location (rest ! i)) = n \<longrightarrow>
                disaster_type (rest ! i) = DROUGHT \<or> disaster_type (rest ! i) = STORM)
             \<longrightarrow> c' = ?c1" by blast
        have r: "reset_of c c'"
          using reset_of_trans[OF reset_of_reset_condition c'(2)] cc by simp
        have "c' = c" if h: "\<forall>i < length (d # rest). g i < 0.20 \<and>
                name (location ((d # rest) ! i)) = n \<longrightarrow>
                disaster_type ((d # rest) ! i) = DROUGHT \<or> disaster_type ((d # rest) ! i) = STORM"
        proof -
          from h[rule_format, of 0] True k
          have "disaster_type d = DROUGHT \<or> disaster_type d = STORM" by simp
          then have "?c1 = cond" by (rule reset_condition_other)
          moreover have "\<forall>i < length rest. ?g1 i < 0.20 \<and> name (location (rest ! i)) = n \<longrightarrow>
                disaster_type (rest ! i) = DROUGHT \<or> disaster_type (rest ! i) = STORM"
            using h by (auto dest: spec[of _ "Suc _"])
          ultimately show ?thesis using c'(3) cc by simp
        qed
        with c'(1) r show ?thesis by blast
      next
        case k: False
        from m1[of n] k c have "map_of ?conds1 n = Some c" by simp
        with rel obtain c' where c': "map_of conds' n = Some c'" "reset_of c c'"
          "(\<forall>i < length rest. ?g1 i < 0.20 \<and> name (location (rest ! i)) = n \<longrightarrow>
                disaster_type (rest ! i) = DROUGHT \<or> disaster_type (rest ! i) = STORM)
             \<longrightarrow> c' = c" by blast
        have "c' = c" if h: "\<forall>i < length (d # rest). g i < 0.20 \<and>
                name (location ((d # rest) ! i)) = n \<longrightarrow>
                disaster_type ((d # rest) ! i) = DROUGHT \<or> disaster_type ((d # rest) ! i) = STORM"
        proof -
          have "\<forall>i < length rest. ?g1 i < 0.20 \<and> name (location (rest ! i)) = n \<longrightarrow>
                disaster_type (rest ! i) = DROUGHT \<or> disaster_type (rest ! i) = STORM"
            using h by (auto dest: spec[of _ "Suc _"])
          with c'(3) show ?thesis by simp
        qed
        with c'(1,2) show ?thesis by blast
      qed
    qed
    have fin': "\<forall>i < length (d # rest). g i < 0.20 \<longrightarrow>
         (\<exists>c'. map_of conds' (name (location ((d # rest) ! i))) = Some c' \<and>
               reset_done (disaster_type ((d # rest) ! i)) c')"
    proof (intro allI impI)
      fix i assume i: "i < length (d # rest)" "g i < 0.20"
      show "\<exists>c'. map_of conds' (name (location ((d # rest) ! i))) = Some c' \<and>
               reset_done (disaster_type ((d # rest) ! i)) c'"
      proof (cases i)
        case 0
        from m1[of ?k] have "map_of ?conds1 ?k = Some ?c1" by simp
        with rel obtain c' where "map_of conds' ?k = Some c'" "reset_of ?c1 c'" by blast
        with reset_done_kept[OF reset_done_reset_condition this(2)] 0 show ?thesis by simp
      next
        case (Suc j)
        with i fin show ?thesis by simp
      qed
    qed
    from eq keys keys1 rel' fin' show ?thesis by (intro exI[of _ conds']) simp
  next
    case False
    from Cons.prems have pre: "\<forall>d \<in> set rest. name (location d) \<in> fst ` set conds" by simp
    from Cons.IH[OF pre, of rem ?g1]
    obtain conds' where
      run: "resolve_disasters rest rem conds ?g1 =
        Inr (rem @ nths rest {i. ?g1 i < 0.20}, conds', (\<lambda>n. ?g1 (n + length rest)))"
      and keys: "map fst conds' = map fst conds"
      and rel: "\<forall>n c. map_of conds n = Some c \<longrightarrow>
         (\<exists>c'. map_of conds' n = Some c' \<and> reset_of c c' \<and>
            ((\<forall>i < length rest. ?g1 i < 0.20 \<and> name (location (rest ! i)) = n \<longrightarrow>
                disaster_type (rest ! i) = DROUGHT \<or> disaster_type (rest ! i) = STORM)
             \<longrightarrow> c' = c))"
      and fin: "\<forall>i < length rest. ?g1 i < 0.20 \<longrightarrow>
         (\<exists>c'. map_of conds' (name (location (rest ! i))) = Some c' \<and>
               reset_done (disaster_type (rest ! i)) c')"
      by blast
    have nths: "rem @ nths (d # rest) {i. g i < 0.20} = rem @ nths rest {i. ?g1 i < 0.20}"
      using False by (simp add: nths_Cons)
    have eq: "resolve_disasters (d # rest) rem conds g =
        Inr (rem @ nths (d # rest) {i. g i < 0.20}, conds', (\<lambda>n. g (n + length (d # rest))))"
      unfolding nths shift[symmetric]
      using False run by (simp add: rnd)
    have rel': "\<forall>n c. map_of conds n = Some c \<longrightarrow>
         (\<exists>c'. map_of conds' n = Some c' \<and> reset_of c c' \<and>
            ((\<forall>i < length (d # rest). g i < 0.20 \<and> name (location ((d # rest) ! i)) = n \<longrightarrow>
                disaster_type ((d # rest) ! i) = DROUGHT \<or> disaster_type ((d # rest) ! i) = STORM)
             \<longrightarrow> c' = c))"
    proof (intro allI impI)
      fix n c assume c: "map_of conds n = Some c"
      with rel obtain c' where c': "map_of conds' n = Some c'" "reset_of c c'"
          "(\<forall>i < length rest. ?g1 i < 0.20 \<and> name (location (rest ! i)) = n \<longrightarrow>
                disaster_type (rest ! i) = DROUGHT \<or> disaster_type (rest ! i) = STORM)
             \<longrightarrow> c' = c" by blast
      have "c' = c" if h: "\<forall>i < length (d # rest). g i < 0.20 \<and>
                name (location ((d # rest) ! i)) = n \<longrightarrow>
                disaster_type ((d # rest) ! i) = DROUGHT \<or> disaster_type ((d # rest) ! i) = STORM"
      proof -
        have "\<forall>i < length rest. ?g1 i < 0.20 \<and> name (location (rest ! i)) = n \<longrightarrow>
                disaster_type (rest ! i) = DROUGHT \<or> disaster_type (rest ! i) = STORM"
          using h by (auto dest: spec[of _ "Suc _"])
        with c'(3) show ?thesis by simp
      qed
      with c'(1,2) show "\<exists>c'. map_of conds' n = Some c' \<and> reset_of c c' \<and>
            ((\<forall>i < length (d # rest). g i < 0.20 \<and> name (location ((d # rest) ! i)) = n \<longrightarrow>
                disaster_type ((d # rest) ! i) = DROUGHT \<or> disaster_type ((d # rest) ! i) = STORM)
             \<longrightarrow> c' = c)" by blast
    qed
    have fin': "\<forall>i < length (d # rest). g i < 0.20 \<longrightarrow>
         (\<exists>c'. map_of conds' (name (location ((d # rest) ! i))) = Some c' \<and>
               reset_done (disaster_type ((d # rest) ! i)) c')"
    proof (intro allI impI)
      fix i assume i: "i < length (d # rest)" "g i < 0.20"
      with False obtain j where "i = Suc j" by (cases i) auto
      with i fin show "\<exists>c'. map_of conds' (name (location ((d # rest) ! i))) = Some c' \<and>
               reset_done (disaster_type ((d # rest) ! i)) c'" by simp
    qed
    from eq keys rel' fin' show ?thesis by (intro exI[of _ conds']) simp
  qed
qed

lemma mset_nths_complement: "mset (nths xs A) + mset (nths xs (- A)) = mset xs"
proof (induction xs arbitrary: A)
  case Nil
  then show ?case by simp
next
  case (Cons x xs)
  have c: "{j. Suc j \<notin> A} = - {j. Suc j \<in> A}" by auto
  show ?case
    using Cons.IH[of "{j. Suc j \<in> A}"] by (simp add: nths_Cons c)
qed

lemma remove_disasters_mset:
  "mset rs \<subseteq># mset act \<Longrightarrow>
     \<exists>act'. remove_disasters rs act = Inr act' \<and> mset act' = mset act - mset rs"
proof (induction rs arbitrary: act)
  case Nil
  then show ?case by simp
next
  case (Cons r rs)
  from Cons.prems have r: "r \<in> set act"
    by (metis mset.simps(2) mset_subset_eq_insertD set_mset_mset)
  from Cons.prems have "mset rs \<subseteq># mset (remove1 r act)"
    by (simp add: insert_subset_eq_iff)
  from Cons.IH[OF this] r show ?case by auto
qed

lemma remove_disasters_distinct:
  "distinct act \<Longrightarrow> distinct rs \<Longrightarrow> set rs \<subseteq> set act \<Longrightarrow>
     remove_disasters rs act = Inr (filter (\<lambda>x. x \<notin> set rs) act)"
proof (induction rs arbitrary: act)
  case Nil
  then show ?case by simp
next
  case (Cons r rs)
  have rm: "remove1 r act = filter (\<lambda>x. x \<noteq> r) act"
    using Cons.prems(1) by (simp add: distinct_remove1_removeAll removeAll_filter_not_eq) metis
  have "remove_disasters rs (remove1 r act) = Inr (filter (\<lambda>x. x \<notin> set rs) (remove1 r act))"
    using Cons.prems by (intro Cons.IH) auto
  then show ?case using Cons.prems(3) by (auto simp: rm intro: filter_cong)
qed

lemma filter_nths_complement:
  "distinct xs \<Longrightarrow> filter (\<lambda>x. x \<notin> set (nths xs A)) xs = nths xs (- A)"
proof (induction xs arbitrary: A)
  case Nil
  then show ?case by simp
next
  case (Cons x xs)
  let ?B = "{j. Suc j \<in> A}"
  have c: "{j. Suc j \<in> - A} = - ?B" by auto
  have x: "x \<notin> set (nths xs ?B)" using Cons.prems by (auto dest: in_set_nthsD)
  from Cons.prems have ih: "filter (\<lambda>y. y \<notin> set (nths xs ?B)) xs = nths xs (- ?B)"
    by (intro Cons.IH) simp
  show ?case
  proof (cases "0 \<in> A")
    case True
    then have n: "nths (x # xs) A = x # nths xs ?B" and n': "nths (x # xs) (- A) = nths xs (- ?B)"
      unfolding nths_Cons c by simp_all
    have "filter (\<lambda>y. y \<notin> set (x # nths xs ?B)) xs = filter (\<lambda>y. y \<notin> set (nths xs ?B)) xs"
      using Cons.prems by (intro filter_cong) auto
    then show ?thesis unfolding n n' using ih by simp
  next
    case False
    then have n: "nths (x # xs) A = nths xs ?B"
      and n': "nths (x # xs) (- A) = x # nths xs (- ?B)"
      unfolding nths_Cons c by simp_all
    show ?thesis unfolding n n' using ih x by simp
  qed
qed

lemma update_disasters_spec:
  assumes "\<forall>d \<in> set (active_disasters env). name (location d) \<in> fst ` set (current_conditions env)"
  shows "\<exists>env'.
      update_disasters env g = Inr (env', (\<lambda>n. g (n + length (active_disasters env)))) \<and>
      locations env' = locations env \<and> event_counter env' = event_counter env \<and>
      mset (active_disasters env') = mset (nths (active_disasters env) (- {i. g i < 0.20})) \<and>
      (distinct (active_disasters env) \<longrightarrow>
         active_disasters env' = nths (active_disasters env) (- {i. g i < 0.20})) \<and>
      map fst (current_conditions env') = map fst (current_conditions env) \<and>
      (\<forall>n c. map_of (current_conditions env) n = Some c \<longrightarrow>
         (\<exists>c'. map_of (current_conditions env') n = Some c' \<and> reset_of c c' \<and>
            ((\<forall>i < length (active_disasters env).
                g i < 0.20 \<and> name (location (active_disasters env ! i)) = n \<longrightarrow>
                disaster_type (active_disasters env ! i) = DROUGHT \<or>
                disaster_type (active_disasters env ! i) = STORM)
             \<longrightarrow> c' = c))) \<and>
      (\<forall>i < length (active_disasters env). g i < 0.20 \<longrightarrow>
         (\<exists>c'. map_of (current_conditions env') (name (location (active_disasters env ! i)))
                 = Some c' \<and>
               reset_done (disaster_type (active_disasters env ! i)) c'))"
proof -
  let ?ds = "active_disasters env"
  let ?A = "{i. g i < 0.20}"
  from resolve_disasters_spec[OF assms, of "[]" g]
  obtain conds' where
    run: "resolve_disasters ?ds [] (current_conditions env) g =
        Inr (nths ?ds ?A, conds', (\<lambda>n. g (n + length ?ds)))"
    and keys: "map fst conds' = map fst (current_conditions env)"
    and rel: "\<forall>n c. map_of (current_conditions env) n = Some c \<longrightarrow>
         (\<exists>c'. map_of conds' n = Some c' \<and> reset_of c c' \<and>
            ((\<forall>i < length ?ds. g i < 0.20 \<and> name (location (?ds ! i)) = n \<longrightarrow>
                disaster_type (?ds ! i) = DROUGHT \<or> disaster_type (?ds ! i) = STORM)
             \<longrightarrow> c' = c))"
    and fin: "\<forall>i < length ?ds. g i < 0.20 \<longrightarrow>
         (\<exists>c'. map_of conds' (name (location (?ds ! i))) = Some c' \<and>
               reset_done (disaster_type (?ds ! i)) c')"
    by auto
  have sub: "mset (nths ?ds ?A) \<subseteq># mset ?ds"
    using mset_nths_complement[of ?ds ?A] by (metis mset_subset_eq_add_left)
  from remove_disasters_mset[OF sub] obtain act' where
    rm: "remove_disasters (nths ?ds ?A) ?ds = Inr act'"
    and ms: "mset act' = mset ?ds - mset (nths ?ds ?A)" by blast
  have ms': "mset act' = mset (nths ?ds (- ?A))"
    using ms mset_nths_complement[of ?ds ?A] by (metis add_diff_cancel_left')
  have dist: "act' = nths ?ds (- ?A)" if "distinct ?ds"
  proof -
    from that have "remove_disasters (nths ?ds ?A) ?ds =
        Inr (filter (\<lambda>x. x \<notin> set (nths ?ds ?A)) ?ds)"
      by (intro remove_disasters_distinct) (auto dest: in_set_nthsD)
    with rm filter_nths_complement[OF that, of ?A] show ?thesis by simp
  qed
  let ?env' = "env\<lparr>current_conditions := conds', active_disasters := act'\<rparr>"
  have "update_disasters env g = Inr (?env', (\<lambda>n. g (n + length ?ds)))"
    by (simp only: update_disasters_def and_then_def run rm sum.case prod.case)
  with keys rel fin ms' dist show ?thesis
    by (intro exI[of _ ?env']) simp
qed

section \<open>Ranges of the conditions after a tick\<close>

lemma map_of_same_keys:
  assumes "map fst xs = map fst ys" "map_of ys n = Some c'"
  shows "\<exists>c. map_of xs n = Some c"
proof -
  from assms(2) have "n \<in> fst ` set ys" by (metis map_of_eq_None_iff option.distinct(1))
  also have "fst ` set ys = fst ` set xs" using assms(1) by (metis list.set_map)
  finally show ?thesis by (metis map_of_eq_None_iff not_Some_eq)
qed

lemma valid_rng_shift: "valid_rng g \<Longrightarrow> valid_rng (\<lambda>n. g (n + k))"
  by (simp add: valid_rng_def)

lemma well_formed_conditions:
  "well_formed env \<Longrightarrow> map fst conds = map fst (current_conditions env) \<Longrightarrow>
     well_formed (env\<lparr>current_conditions := conds\<rparr>)"
proof -
  assume wf: "well_formed env" and k: "map fst conds = map fst (current_conditions env)"
  from k have "fst ` set conds = fst ` set (current_conditions env)" by (metis list.set_map)
  with wf show ?thesis by (simp add: well_formed_def)
qed

text \<open>The tick up to and including the spawn decision.\<close>

lemma spawn_step:
  assumes "valid_rng g" and "well_formed env"
    and doc: "\<forall>n c. map_of (current_conditions env) n = Some c \<longrightarrow> documented_ranges c"
  shows "\<exists>env2 g3.
     (if fst (random g) < 0.80
      then and_then (generate_disaster now env (snd (random g))) (\<lambda>(event, env2, g3). Inr (env2, g3))
      else Inr (env, snd (random g))) = Inr (env2, g3) \<and>
     valid_rng g3 \<and> well_formed env2 \<and> locations env2 = locations env \<and>
     map fst (current_conditions env2) = map fst (current_conditions env) \<and>
     (\<forall>n c. map_of (current_conditions env2) n = Some c \<longrightarrow> widened_ranges c) \<and>
     (event_counter env2 = event_counter env \<longrightarrow>
        (\<forall>n c. map_of (current_conditions env2) n = Some c \<longrightarrow> documented_ranges c)) \<and>
     (\<exists>l \<in> set (locations env). \<forall>n c. n \<noteq> name l \<and> map_of (current_conditions env2) n = Some c
        \<longrightarrow> documented_ranges c)"
proof -
  obtain u g2 where r: "random g = (u, g2)" by (cases "random g")
  from valid_rng_random[OF assms(1) r] have v2: "valid_rng g2" by simp
  from assms(2) have "locations env \<noteq> []" by (simp add: well_formed_def)
  then obtain l0 where l0: "l0 \<in> set (locations env)"
    by (cases "locations env") auto
  show ?thesis
  proof (cases "u < 0.80")
    case False
    have "(if fst (random g) < 0.80
      then and_then (generate_disaster now env (snd (random g))) (\<lambda>(event, env2, g3). Inr (env2, g3))
      else Inr (env, snd (random g))) = Inr (env, g2)"
      using False by (simp add: r)
    with v2 assms(2) doc l0 show ?thesis
      by (intro exI[of _ env] exI[of _ g2]) (auto intro: documented_widened)
  next
    case True
    from generate_disaster_spec[OF v2 assms(2), of now]
    obtain event env2 g3 loc cond cond' dtype gx gy where
      run: "generate_disaster now env g2 = Inr (event, env2, g3)" and v3: "valid_rng g3"
      and loc: "loc \<in> set (locations env)" "location event = loc"
      and cond: "map_of (current_conditions env) (name loc) = Some cond"
      and eff: "valid_rng gx" "disaster_effects dtype cond gx = (cond', gy)"
      and env2: "env2 = env\<lparr>event_counter := event_counter env + 1,
                 current_conditions := AList.update (name loc) cond' (current_conditions env),
                 active_disasters := active_disasters env @ [event]\<rparr>"
      by blast
    from doc cond have "documented_ranges cond" by blast
    from disaster_effects_ranges[OF eff this] have w: "widened_ranges cond'" .
    from cond have key: "name loc \<in> fst ` set (current_conditions env)"
      by (metis map_of_eq_None_iff option.distinct(1))
    have keys: "map fst (current_conditions env2) = map fst (current_conditions env)"
      unfolding env2 using keys_update_present[OF key] by simp
    then have keyset: "fst ` set (current_conditions env2) = fst ` set (current_conditions env)"
      by (metis list.set_map)
    have m: "\<And>n. map_of (current_conditions env2) n =
        (if n = name loc then Some cond' else map_of (current_conditions env) n)"
      unfolding env2 by (simp add: update_conv')
    have wf2: "well_formed env2"
      using assms(2) loc key unfolding well_formed_def keyset
      unfolding env2 by auto
    have eq: "(if fst (random g) < 0.80
      then and_then (generate_disaster now env (snd (random g))) (\<lambda>(event, env2, g3). Inr (env2, g3))
      else Inr (env, snd (random g))) = Inr (env2, g3)"
      using True by (simp add: r run and_then_def)
    have wid: "\<forall>n c. map_of (current_conditions env2) n = Some c \<longrightarrow> widened_ranges c"
      using m w doc by (auto intro: documented_widened split: if_splits)
    have cnt: "event_counter env2 \<noteq> event_counter env" unfolding env2 by simp
    have oth: "\<forall>n c. n \<noteq> name loc \<and> map_of (current_conditions env2) n = Some c
        \<longrightarrow> documented_ranges c"
      using m doc by auto
    have locs: "locations env2 = locations env" unfolding env2 by simp
    from eq v3 wf2 locs keys wid cnt oth loc(1) show ?thesis
      by (intro exI[of _ env2] exI[of _ g3]) blast
  qed
qed

text \<open>
  C1. After every tick every condition field is to lie in its documented range, also in a
  tick with a spawn. \<open>update_environment\<close> clips to these ranges (``clip values to
  realistic ranges'', air quality ``AQI (0-500)'') while it drifts, and the spawn that
  follows adds its side effects to the clipped values without clipping again. With every
  draw 1/2 the first tick spawns a fire at Tema, which adds 20 degrees to the clipped 30:
  the tick ends with 50 degrees at Tema, above the maximum of 45. A fire on a condition
  clipped at 45 degrees and index 500 leaves 65 degrees and index 700.
\<close>

theorem fire_temperature_above_range:
  "(case update_environment 0 (fst (DisasterEnvironment_init (\<lambda>n. 1 / 2))) (\<lambda>n. 1 / 2) of
      Inl e \<Rightarrow> None
    | Inr (env', g') \<Rightarrow>
        Some (map disaster_type (active_disasters env'),
              map_option temperature (map_of (current_conditions env') ''Tema'')))
   = Some ([FIRE], Some 50) \<and>
   fst (disaster_effects FIRE (calm\<lparr>temperature := 45, air_quality := 500\<rparr>) (\<lambda>n. 1 / 2)) =
     calm\<lparr>temperature := 65, air_quality := 700, smoke_detected := True\<rparr>"
proof -
  have tick: "(case update_environment 0 (fst (DisasterEnvironment_init (\<lambda>n. 1 / 2)))
        (\<lambda>n. 1 / 2) of
      Inl e \<Rightarrow> None
    | Inr (env', g') \<Rightarrow>
        Some (map disaster_type (active_disasters env'),
              map_option temperature (map_of (current_conditions env') ''Tema'')))
   = Some ([FIRE], Some 50)"
    unfolding init_half
    by (simp add: update_environment_def drift_def uniform_def random_def and_then_def
        generate_disaster_def choice_def randbelow_def list_DisasterType_def list_Severity_def
        initialize_locations_def lookup_def create_event_def randint_def update_disasters_def
        Let_def)
  have fire: "fst (disaster_effects FIRE (calm\<lparr>temperature := 45, air_quality := 500\<rparr>)
        (\<lambda>n. 1 / 2)) =
      calm\<lparr>temperature := 65, air_quality := 700, smoke_detected := True\<rparr>"
    by (simp add: calm_def uniform_def random_def)
  from tick fire show ?thesis by (rule conjI)
qed

text \<open>
  What a tick does as the code stands, on a well-formed environment whose water levels are
  not negative and for draws in the unit interval: it succeeds and leaves such an
  environment again; the clipping bounds hold at every location when nothing spawned, and
  at all locations but one in any case; where a spawn hit, its unclipped side effects stay
  within temperature \<open>[20, 75]\<close>, humidity \<open>[20, 100]\<close> and air quality \<open>[0, 800]\<close>.
\<close>

lemma update_environment_ranges:
  assumes "valid_rng g" and "well_formed env"
    and "\<forall>n c. map_of (current_conditions env) n = Some c \<longrightarrow> 0 \<le> water_level c"
  shows "\<exists>env' g'. update_environment now env g = Inr (env', g') \<and>
     valid_rng g' \<and> well_formed env' \<and>
     map fst (current_conditions env') = map fst (current_conditions env) \<and>
     (\<forall>n c. map_of (current_conditions env') n = Some c \<longrightarrow> widened_ranges c) \<and>
     (event_counter env' = event_counter env \<longrightarrow>
        (\<forall>n c. map_of (current_conditions env') n = Some c \<longrightarrow> documented_ranges c)) \<and>
     (\<exists>l \<in> set (locations env). \<forall>n c. n \<noteq> name l \<and> map_of (current_conditions env') n = Some c
        \<longrightarrow> documented_ranges c)"
proof -
  obtain conds1 g1 where d: "drift_conditions (current_conditions env) g = (conds1, g1)"
    by (cases "drift_conditions (current_conditions env) g")
  from drift_conditions_spec[OF assms(1) d]
  have v1: "valid_rng g1" and k1: "map fst conds1 = map fst (current_conditions env)"
    and dr: "\<forall>n c. map_of (current_conditions env) n = Some c \<longrightarrow>
        (\<exists>c'. map_of conds1 n = Some c' \<and>
           20 \<le> temperature c' \<and> temperature c' \<le> 45 \<and>
           30 \<le> humidity c' \<and> humidity c' \<le> 100 \<and>
           0 \<le> air_quality c' \<and> air_quality c' \<le> 500 \<and> 0 \<le> wind_speed c' \<and>
           water_level c' = water_level c)"
    by blast+
  let ?env1 = "env\<lparr>current_conditions := conds1\<rparr>"
  have wf1: "well_formed ?env1" using assms(2) k1 by (rule well_formed_conditions)
  have doc1: "\<forall>n c. map_of (current_conditions ?env1) n = Some c \<longrightarrow> documented_ranges c"
  proof (intro allI impI)
    fix n c1 assume c1: "map_of (current_conditions ?env1) n = Some c1"
    then have m: "map_of conds1 n = Some c1" by simp
    from map_of_same_keys[OF k1[symmetric] m] obtain c where
      c: "map_of (current_conditions env) n = Some c" by blast
    with dr m assms(3) show "documented_ranges c1"
      by (fastforce simp: documented_ranges_def)
  qed
  from spawn_step[OF v1 wf1 doc1, of now] obtain env2 g3 where
    sp: "(if fst (random g1) < 0.80
      then and_then (generate_disaster now ?env1 (snd (random g1)))
             (\<lambda>(event, env2, g3). Inr (env2, g3))
      else Inr (?env1, snd (random g1))) = Inr (env2, g3)"
    and v3: "valid_rng g3" and wf2: "well_formed env2"
    and l2: "locations env2 = locations ?env1"
    and k2: "map fst (current_conditions env2) = map fst (current_conditions ?env1)"
    and wid2: "\<forall>n c. map_of (current_conditions env2) n = Some c \<longrightarrow> widened_ranges c"
    and doc2: "event_counter env2 = event_counter ?env1 \<longrightarrow>
        (\<forall>n c. map_of (current_conditions env2) n = Some c \<longrightarrow> documented_ranges c)"
    and oth2: "\<exists>l \<in> set (locations ?env1). \<forall>n c. n \<noteq> name l \<and>
        map_of (current_conditions env2) n = Some c \<longrightarrow> documented_ranges c"
    by blast
  from wf2 have pre: "\<forall>d \<in> set (active_disasters env2).
      name (location d) \<in> fst ` set (current_conditions env2)"
    by (simp add: well_formed_def)
  let ?g' = "\<lambda>n. g3 (n + length (active_disasters env2))"
  from update_disasters_spec[OF pre, of g3] obtain env' where
    ud: "update_disasters env2 g3 = Inr (env', ?g')"
    and l3: "locations env' = locations env2"
    and cnt: "event_counter env' = event_counter env2"
    and ms: "mset (active_disasters env') =
        mset (nths (active_disasters env2) (- {i. g3 i < 0.20}))"
    and k3: "map fst (current_conditions env') = map fst (current_conditions env2)"
    and rel: "\<forall>n c. map_of (current_conditions env2) n = Some c \<longrightarrow>
         (\<exists>c'. map_of (current_conditions env') n = Some c' \<and> reset_of c c')"
    by blast
  have origin: "\<And>n c'. map_of (current_conditions env') n = Some c' \<Longrightarrow>
      \<exists>c. map_of (current_conditions env2) n = Some c \<and> reset_of c c'"
  proof -
    fix n c' assume c': "map_of (current_conditions env') n = Some c'"
    from map_of_same_keys[OF k3[symmetric] c'] obtain c where
      c: "map_of (current_conditions env2) n = Some c" by blast
    with rel c' show "\<exists>c. map_of (current_conditions env2) n = Some c \<and> reset_of c c'"
      by fastforce
  qed
  have run: "update_environment now env g = Inr (env', ?g')"
  proof -
    obtain u g2 where r: "random g1 = (u, g2)" by (cases "random g1")
    have sp': "(if u < 0.80
      then and_then (generate_disaster now ?env1 g2) (\<lambda>(event, env2, g3). Inr (env2, g3))
      else Inr (?env1, g2)) = Inr (env2, g3)"
      using sp by (simp only: r fst_conv snd_conv)
    have "update_environment now env g =
        and_then
          (if u < 0.80
           then and_then (generate_disaster now ?env1 g2) (\<lambda>(event, env2, g3). Inr (env2, g3))
           else Inr (?env1, g2))
          (\<lambda>(env2, g3). update_disasters env2 g3)"
      by (simp only: update_environment_def d r prod.case Let_def)
    also have "\<dots> = and_then (Inr (env2, g3)) (\<lambda>(env2, g3). update_disasters env2 g3)"
      by (simp only: sp')
    also have "\<dots> = Inr (env', ?g')"
      by (simp add: and_then_def ud)
    finally show ?thesis .
  qed
  have act: "set (active_disasters env') \<subseteq> set (active_disasters env2)"
  proof -
    have "set (active_disasters env') = set (nths (active_disasters env2) (- {i. g3 i < 0.20}))"
      using ms by (metis set_mset_mset)
    then show ?thesis by (auto dest: in_set_nthsD)
  qed
  have ks: "fst ` set (current_conditions env') = fst ` set (current_conditions env2)"
    using k3 by (metis list.set_map)
  have wf': "well_formed env'"
    using wf2 act unfolding well_formed_def l3 ks by auto
  have keys: "map fst (current_conditions env') = map fst (current_conditions env)"
    using k3 k2 k1 by simp
  have wid: "\<forall>n c. map_of (current_conditions env') n = Some c \<longrightarrow> widened_ranges c"
    using origin wid2 reset_of_widened by blast
  have doc: "event_counter env' = event_counter env \<longrightarrow>
        (\<forall>n c. map_of (current_conditions env') n = Some c \<longrightarrow> documented_ranges c)"
  proof
    assume "event_counter env' = event_counter env"
    with cnt have "event_counter env2 = event_counter ?env1" by simp
    with doc2 have "\<forall>n c. map_of (current_conditions env2) n = Some c \<longrightarrow> documented_ranges c"
      by blast
    then show "\<forall>n c. map_of (current_conditions env') n = Some c \<longrightarrow> documented_ranges c"
      using origin reset_of_documented by blast
  qed
  from oth2 obtain l where l: "l \<in> set (locations env)"
    "\<forall>n c. n \<noteq> name l \<and> map_of (current_conditions env2) n = Some c \<longrightarrow> documented_ranges c"
    by auto
  have oth: "\<forall>n c. n \<noteq> name l \<and> map_of (current_conditions env') n = Some c
        \<longrightarrow> documented_ranges c"
    using origin l(2) reset_of_documented by blast
  from run valid_rng_shift[OF v3] wf' keys wid doc l(1) oth show ?thesis
    by (intro exI[of _ env'] exI[of _ ?g']) blast
qed

section \<open>Resolution of disasters\<close>

lemmas tick_defs =
  update_environment_def drift_def uniform_def and_then_def generate_disaster_def choice_def
  randbelow_def list_DisasterType_def list_Severity_def initialize_locations_def lookup_def
  create_event_def randint_def update_disasters_def Let_def

text \<open>
  C6, as stated, fails for a storm: the first tick spawns a storm at Accra, which sets the
  wind speed to 100; the second tick resolves it and removes it from the catalog, and the
  wind speed is still 100, not zero.
\<close>

theorem storm_resolved_wind_not_reset:
  "(case update_environment 0 (fst (DisasterEnvironment_init (\<lambda>n. 1 / 2))) storm_tick of
      Inl e \<Rightarrow> None
    | Inr (env1, g1) \<Rightarrow>
        (case update_environment 1 env1 resolution_tick of
           Inl e \<Rightarrow> None
         | Inr (env2, g2) \<Rightarrow>
             Some (map disaster_type (active_disasters env1),
                   map_option wind_speed (map_of (current_conditions env1) ''Accra''),
                   map disaster_type (active_disasters env2),
                   map_option wind_speed (map_of (current_conditions env2) ''Accra''))))
   = Some ([STORM], Some 100, [], Some 100)"
  unfolding init_half storm_tick_def resolution_tick_def
  by (simp add: tick_defs)

text \<open>
  C6, amended. \<open>_update_disasters\<close> on a well-formed environment succeeds. The \<open>i\<close>-th
  active disaster resolves when the \<open>i\<close>-th draw is below 0.20; the catalog afterwards
  holds the others (as a multiset, and as the same list in order when the catalog has no
  duplicates). After the step the location of a resolved FLOOD has water level 0, that of a
  resolved FIRE has the smoke flag false, that of a resolved EARTHQUAKE has seismic activity
  0. Temperature, humidity, wind speed and air quality of every location are left as they
  were, and a location where only droughts and storms resolved (or nothing did) keeps its
  whole condition: the resolution of a DROUGHT or STORM resets no field.
\<close>

theorem update_disasters_resets:
  assumes "well_formed env"
  shows "\<exists>env' g'. update_disasters env g = Inr (env', g') \<and>
      mset (active_disasters env') = mset (nths (active_disasters env) (- {i. g i < 0.20})) \<and>
      (distinct (active_disasters env) \<longrightarrow>
         active_disasters env' = nths (active_disasters env) (- {i. g i < 0.20})) \<and>
      (\<forall>i < length (active_disasters env). g i < 0.20 \<longrightarrow>
         (\<exists>c'. map_of (current_conditions env') (name (location (active_disasters env ! i)))
                 = Some c' \<and>
            (disaster_type (active_disasters env ! i) = FLOOD \<longrightarrow> water_level c' = 0) \<and>
            (disaster_type (active_disasters env ! i) = FIRE \<longrightarrow> \<not> smoke_detected c') \<and>
            (disaster_type (active_disasters env ! i) = EARTHQUAKE \<longrightarrow>
               seismic_activity c' = 0))) \<and>
      (\<forall>n c. map_of (current_conditions env) n = Some c \<longrightarrow>
         (\<exists>c'. map_of (current_conditions env') n = Some c' \<and>
            temperature c' = temperature c \<and> humidity c' = humidity c \<and>
            wind_speed c' = wind_speed c \<and> air_quality c' = air_quality c \<and>
            ((\<forall>i < length (active_disasters env).
                g i < 0.20 \<and> name (location (active_disasters env ! i)) = n \<longrightarrow>
                disaster_type (active_disasters env ! i) = DROUGHT \<or>
                disaster_type (active_disasters env ! i) = STORM)
             \<longrightarrow> c' = c)))"
proof -
  from assms have pre: "\<forall>d \<in> set (active_disasters env).
      name (location d) \<in> fst ` set (current_conditions env)"
    by (simp add: well_formed_def)
  from update_disasters_spec[OF pre, of g] obtain env' where
    run: "update_disasters env g = Inr (env', (\<lambda>n. g (n + length (active_disasters env))))"
    and ms: "mset (active_disasters env') =
        mset (nths (active_disasters env) (- {i. g i < 0.20}))"
    and dist: "distinct (active_disasters env) \<longrightarrow>
         active_disasters env' = nths (active_disasters env) (- {i. g i < 0.20})"
    and rel: "\<forall>n c. map_of (current_conditions env) n = Some c \<longrightarrow>
         (\<exists>c'. map_of (current_conditions env') n = Some c' \<and> reset_of c c' \<and>
            ((\<forall>i < length (active_disasters env).
                g i < 0.20 \<and> name (location (active_disasters env ! i)) = n \<longrightarrow>
                disaster_type (active_disasters env ! i) = DROUGHT \<or>
                disaster_type (active_disasters env ! i) = STORM)
             \<longrightarrow> c' = c))"
    and fin: "\<forall>i < length (active_disasters env). g i < 0.20 \<longrightarrow>
         (\<exists>c'. map_of (current_conditions env') (name (location (active_disasters env ! i)))
                 = Some c' \<and>
               reset_done (disaster_type (active_disasters env ! i)) c')"
    by blast
  have fin': "\<forall>i < length (active_disasters env). g i < 0.20 \<longrightarrow>
         (\<exists>c'. map_of (current_conditions env') (name (location (active_disasters env ! i)))
                 = Some c' \<and>
            (disaster_type (active_disasters env ! i) = FLOOD \<longrightarrow> water_level c' = 0) \<and>
            (disaster_type (active_disasters env ! i) = FIRE \<longrightarrow> \<not> smoke_detected c') \<and>
            (disaster_type (active_disasters env ! i) = EARTHQUAKE \<longrightarrow>
               seismic_activity c' = 0))"
    using fin unfolding reset_done_def by blast
  have rel': "\<forall>n c. map_of (current_conditions env) n = Some c \<longrightarrow>
         (\<exists>c'. map_of (current_conditions env') n = Some c' \<and>
            temperature c' = temperature c \<and> humidity c' = humidity c \<and>
            wind_speed c' = wind_speed c \<and> air_quality c' = air_quality c \<and>
            ((\<forall>i < length (active_disasters env).
                g i < 0.20 \<and> name (location (active_disasters env ! i)) = n \<longrightarrow>
                disaster_type (active_disasters env ! i) = DROUGHT \<or>
                disaster_type (active_disasters env ! i) = STORM)
             \<longrightarrow> c' = c))"
    using rel unfolding reset_of_def by blast
  from run ms dist fin' rel' show ?thesis by blast
qed

lemma well_formed_flood_scene: "well_formed flood_scene"
  by (simp add: well_formed_def flood_scene_def initialize_locations_def synthetic_disaster_def)

theorem update_disasters_resets_witness:
  "well_formed flood_scene \<and>
   (\<exists>env' g' c'. update_disasters flood_scene (draws [1/10] (1/2)) = Inr (env', g') \<and>
      active_disasters env' = [] \<and>
      map_of (current_conditions env') ''Accra'' = Some c' \<and>
      water_level c' = 0 \<and> humidity c' = 95 \<and> temperature c' = 30)"
proof -
  let ?g = "draws [1/10] (1/2)"
  have g0: "?g 0 < 0.20" by (simp add: draws_def)
  have act: "active_disasters flood_scene = [synthetic_disaster ''D0001'' HIGH 5]"
    by (simp add: flood_scene_def)
  have d0: "disaster_type (active_disasters flood_scene ! 0) = FLOOD"
    "name (location (active_disasters flood_scene ! 0)) = ''Accra''"
    by (simp_all add: act synthetic_disaster_def)
  have before: "map_of (current_conditions flood_scene) ''Accra'' =
      Some (calm\<lparr>water_level := 3, humidity := 95\<rparr>)"
    by (simp add: flood_scene_def)
  from update_disasters_resets[OF well_formed_flood_scene, of ?g]
  obtain env' g' where
    run: "update_disasters flood_scene ?g = Inr (env', g')"
    and dist: "distinct (active_disasters flood_scene) \<longrightarrow>
         active_disasters env' = nths (active_disasters flood_scene) (- {i. ?g i < 0.20})"
    and fin: "\<forall>i < length (active_disasters flood_scene). ?g i < 0.20 \<longrightarrow>
         (\<exists>c'. map_of (current_conditions env')
                  (name (location (active_disasters flood_scene ! i))) = Some c' \<and>
            (disaster_type (active_disasters flood_scene ! i) = FLOOD \<longrightarrow> water_level c' = 0))"
    and rel: "\<forall>n c. map_of (current_conditions flood_scene) n = Some c \<longrightarrow>
         (\<exists>c'. map_of (current_conditions env') n = Some c' \<and>
            temperature c' = temperature c \<and> humidity c' = humidity c)"
    by blast
  have empty: "active_disasters env' = []"
    using dist g0 by (simp add: act nths_Cons)
  from fin[rule_format, of 0] g0 d0 act
  obtain c' where c': "map_of (current_conditions env') ''Accra'' = Some c'" "water_level c' = 0"
    by auto
  from rel[rule_format, OF before] c'(1)
  have "temperature c' = 30" "humidity c' = 95" by (auto simp: calm_def)
  with run empty c' well_formed_flood_scene show ?thesis by blast
qed

section \<open>Construction and configuration\<close>

lemma initialize_conditions_spec:
  assumes "valid_rng g" "initialize_conditions ls acc g = (conds, g')"
  shows "valid_rng g' \<and> fst ` set conds = fst ` set acc \<union> name ` set ls \<and>
     (\<forall>n c. map_of conds n = Some c \<longrightarrow> map_of acc n = Some c \<or> initial_ranges c)"
  using assms
proof (induction ls arbitrary: acc g)
  case Nil
  then show ?case by simp
next
  case (Cons l ls)
  obtain t g1 where a: "uniform 25 35 g = (t, g1)" by (cases "uniform 25 35 g")
  obtain h g2 where b: "uniform 60 90 g1 = (h, g2)" by (cases "uniform 60 90 g1")
  obtain w g3 where c: "uniform 0 30 g2 = (w, g3)" by (cases "uniform 0 30 g2")
  obtain q g4 where d: "uniform 50 150 g3 = (q, g4)" by (cases "uniform 50 150 g3")
  from uniform_range[OF Cons.prems(1) _ a] have a': "25 \<le> t" "t \<le> 35" "valid_rng g1" by simp_all
  from uniform_range[OF a'(3) _ b] have b': "60 \<le> h" "h \<le> 90" "valid_rng g2" by simp_all
  from uniform_range[OF b'(3) _ c] have c': "0 \<le> w" "w \<le> 30" "valid_rng g3" by simp_all
  from uniform_range[OF c'(3) _ d] have d': "50 \<le> q" "q \<le> 150" "valid_rng g4" by simp_all
  let ?c = "\<lparr>temperature = t, humidity = h, wind_speed = w, air_quality = q,
             seismic_activity = 0, water_level = 0, smoke_detected = False\<rparr>"
  let ?acc = "AList.update (name l) ?c acc"
  have i: "initial_ranges ?c" using a' b' c' d' by (simp add: initial_ranges_def)
  from Cons.prems(2) have r: "initialize_conditions ls ?acc g4 = (conds, g')"
    by (simp only: initialize_conditions.simps a b c d prod.case)
  note ih = Cons.IH[OF d'(3) r]
  have m: "\<And>n. map_of ?acc n = (if n = name l then Some ?c else map_of acc n)"
    by (simp add: update_conv')
  have k: "fst ` set ?acc = {name l} \<union> fst ` set acc" by (rule dom_update)
  show ?case
  proof (intro conjI allI impI)
    show "valid_rng g'" using ih by simp
    show "fst ` set conds = fst ` set acc \<union> name ` set (l # ls)" using ih k by auto
    fix n c assume "map_of conds n = Some c"
    with ih have "map_of ?acc n = Some c \<or> initial_ranges c" by blast
    then show "map_of acc n = Some c \<or> initial_ranges c"
      using i by (auto simp: m split: if_splits)
  qed
qed

lemma DisasterEnvironment_init_spec:
  assumes "valid_rng g"
  shows "valid_rng (snd (DisasterEnvironment_init g)) \<and>
     well_formed (fst (DisasterEnvironment_init g)) \<and>
     event_counter (fst (DisasterEnvironment_init g)) = 0 \<and>
     active_disasters (fst (DisasterEnvironment_init g)) = [] \<and>
     locations (fst (DisasterEnvironment_init g)) = initialize_locations \<and>
     (\<forall>n c. map_of (current_conditions (fst (DisasterEnvironment_init g))) n = Some c
        \<longrightarrow> initial_ranges c)"
proof -
  obtain conds g' where r: "initialize_conditions initialize_locations [] g = (conds, g')"
    by (cases "initialize_conditions initialize_locations [] g")
  from initialize_conditions_spec[OF assms r]
  have v: "valid_rng g'" and k: "fst ` set conds = name ` set initialize_locations"
    and c: "\<forall>n c. map_of conds n = Some c \<longrightarrow> initial_ranges c"
    by simp_all
  have e: "DisasterEnvironment_init g =
      (\<lparr>event_counter = 0, active_disasters = [], locations = initialize_locations,
        current_conditions = conds\<rparr>, g')"
    by (simp add: DisasterEnvironment_init_def r)
  have ne: "initialize_locations \<noteq> []" by (simp add: initialize_locations_def)
  show ?thesis
    unfolding e using v k c ne by (simp add: well_formed_def)
qed

text \<open>
  The agent's constructor raises exactly when creating the directory of the trace file
  does; it reads no configuration.
\<close>

lemma GoalReactiveResponseAgent_cases:
  "GoalReactiveResponseAgent aid None = Inr (GoalReactiveResponseAgent_init aid)"
  "GoalReactiveResponseAgent aid (Some e) = Inl e"
  by (simp_all add: GoalReactiveResponseAgent_def mkdir_def and_then_def)

lemma float_limit_positive: "0 < float_limit"
proof -
  have "(2::int) ^ 970 < 2 ^ 1024" by (rule power_strict_increasing) simp_all
  then show ?thesis by (simp add: float_limit_def)
qed

lemma sleep_not_positive: "delay \<le> 0 \<Longrightarrow> sleep delay st = Inr st"
  by (simp add: sleep_def)

lemma sleep_too_large: "float_limit \<le> delay \<Longrightarrow> sleep delay st = Inl OverflowError"
  using float_limit_positive by (simp add: sleep_def)

text \<open>
  \<open>run\<close> passes its interval to \<open>asyncio.sleep\<close> and checks it nowhere: a run of one
  cycle with the interval -5 returns normally.
\<close>

lemma run_negative_interval:
  "(case run (\<lambda>n. n) 1 (- 5)
           (GoalReactiveResponseAgent_init ''RESPONSE-001'',
            fst (DisasterEnvironment_init (\<lambda>n. 1 / 2)), \<lambda>n. 1 / 2) of
      Inl e \<Rightarrow> None
    | Inr (a, env, g) \<Rightarrow> Some (state a, length (transition_history a), event_counter env))
   = Some (MONITORING, 4, 1)"
proof -
  have one: "[Suc 0..<2] = [Suc 0]" by (simp add: numeral_2_eq_2)
  show ?thesis
    unfolding init_half
    by (simp add: run_def run_cycle_def sleep_not_positive tick_defs random_def
      get_all_percepts_def sense_def one
      derive_events_def GoalReactiveResponseAgent_init_def get_default_def log_def
      react_def prioritize_disaster_def List.map_filter_simps switch_state_def)
qed

end
